theory Spec2Isabelle
  imports Complex_Main
begin

section \<open>JavaScript values used by the filter bar\<close>

text \<open>
  An option value is \<open>string | number\<close>. Numbers are modelled as integers: the
  comparisons the code makes on them (\<open>includes\<close>, \<open>!==\<close>) are then plain equality
  (\<open>NaN\<close> and fractions are outside the model). A condition's value is
  \<open>undefined\<close>, one such scalar, or an array of them. The strings of keys and values
  are \<open>char list\<close>.
\<close>

datatype prim = Str string | Num int

datatype jsval = Undefined | Scalar prim | Arr "prim list"

text \<open>Truthiness, as in \<open>value ? ... : []\<close>: the empty string and zero are falsy, an array never is.\<close>

fun truthy :: "jsval \<Rightarrow> bool" where
  "truthy Undefined = False"
| "truthy (Scalar (Str s)) = (s \<noteq> [])"
| "truthy (Scalar (Num n)) = (n \<noteq> 0)"
| "truthy (Arr xs) = True"

text \<open>
  An optional property of an object: absent, present with the value \<open>undefined\<close>
  (lodash \<open>has\<close> is true there), or present with a value.
\<close>

datatype 'a field = Absent | Undef | Present 'a

section \<open>Strings: \<open>toLowerCase\<close> and \<open>includes\<close>\<close>

text \<open>
  A string is the list of its UTF-16 code units. The type \<open>'c\<close> of code units is a
  parameter of the option search: \<open>char\<close> for strings of ASCII characters, \<open>nat\<close> for code
  units in general. \<open>String.prototype.toLowerCase\<close> follows the case mappings of the
  Unicode character database, which are not part of the source: the functions below take
  it as the parameter \<open>toLowerCase\<close>.
\<close>

text \<open>\<open>starts f v\<close>: \<open>f\<close> occurs in \<open>v\<close> at position 0.\<close>

fun starts :: "'a list \<Rightarrow> 'a list \<Rightarrow> bool" where
  "starts [] v = True"
| "starts (x # f) [] = False"
| "starts (x # f) (y # v) = (x = y \<and> starts f v)"

text \<open>\<open>str_includes v f\<close> is \<open>v.includes(f)\<close>: \<open>f\<close> occurs in \<open>v\<close> at some position.\<close>

fun str_includes :: "'a list \<Rightarrow> 'a list \<Rightarrow> bool" where
  "str_includes [] f = (f = [])"
| "str_includes (y # v) f = (starts f (y # v) \<or> str_includes v f)"

definition filterMatch :: "('c list \<Rightarrow> 'c list) \<Rightarrow> 'c list \<Rightarrow> 'c list \<Rightarrow> bool" where
  "filterMatch toLowerCase v f = str_includes (toLowerCase v) (toLowerCase f)"

subsection \<open>\<open>toLowerCase\<close> on strings of ASCII characters\<close>

text \<open>
  On a string of ASCII characters \<open>toLowerCase\<close> replaces each of the letters A to Z by
  its small letter and leaves every other character as it is.
\<close>

definition ascii_letters :: "(char \<times> char) list" where
  "ascii_letters = zip ''ABCDEFGHIJKLMNOPQRSTUVWXYZ'' ''abcdefghijklmnopqrstuvwxyz''"

definition lower_char :: "char \<Rightarrow> char" where
  "lower_char c = (case map_of ascii_letters c of Some l \<Rightarrow> l | None \<Rightarrow> c)"

definition toLowerCase_ascii :: "string \<Rightarrow> string" where
  "toLowerCase_ascii s = map lower_char s"

subsection \<open>\<open>toLowerCase\<close> on strings of ASCII and Greek letters\<close>

text \<open>
  Code units as numbers. On a string made of ASCII letters and of the letters of the basic
  Greek alphabet, \<open>toLowerCase\<close> replaces each capital letter by its small letter, 32
  code units further; the capital sigma (931) becomes the final small sigma (962) when a
  letter precedes it and no letter follows it, and the small sigma (963) otherwise.
\<close>

definition is_letter :: "nat \<Rightarrow> bool" where
  "is_letter u =
     ((65 \<le> u \<and> u \<le> 90) \<or> (97 \<le> u \<and> u \<le> 122)
      \<or> (913 \<le> u \<and> u \<le> 929) \<or> (931 \<le> u \<and> u \<le> 939) \<or> (945 \<le> u \<and> u \<le> 971))"

definition lower_unit :: "nat \<Rightarrow> nat" where
  "lower_unit u =
     (if (65 \<le> u \<and> u \<le> 90) \<or> (913 \<le> u \<and> u \<le> 929) \<or> (931 \<le> u \<and> u \<le> 939)
      then u + 32 else u)"

fun lower_units :: "bool \<Rightarrow> nat list \<Rightarrow> nat list" where
  "lower_units prev [] = []"
| "lower_units prev [u] = [if u = 931 \<and> prev then 962 else lower_unit u]"
| "lower_units prev (u # w # us) =
     (if u = 931 \<and> prev \<and> \<not> is_letter w then 962 else lower_unit u)
     # lower_units (is_letter u) (w # us)"

definition toLowerCase_greek :: "nat list \<Rightarrow> nat list" where
  "toLowerCase_greek s = lower_units False s"

section \<open>Options and \<open>getSelectOptions\<close>\<close>

datatype 'c opt =
  Option (label: "'c list") (val: prim) (icon: "string option") (children: "'c opt list field")

text \<open>The options of the filter bar in the rest of the theory have labels of ASCII characters.\<close>

type_synonym option_t = "char opt"

text \<open>The body of the inner \<open>forEach\<close>: a matching child is pushed onto \<open>curOp.children\<close>.\<close>

definition pushChild ::
  "('c list \<Rightarrow> 'c list) \<Rightarrow> 'c list \<Rightarrow> 'c opt \<Rightarrow> 'c opt list \<Rightarrow> 'c opt list" where
  "pushChild toLowerCase filterKey cItem acc =
     (if filterMatch toLowerCase (label cItem) filterKey then acc @ [cItem] else acc)"

text \<open>
  The body of the outer \<open>forEach\<close>, on the accumulator \<open>useableOptions\<close>. With a
  \<open>children\<close> property, \<open>curOp\<close> is a copy of the item whose children start empty; an
  \<open>undefined\<close> children value skips the inner loop (\<open>item.children?.forEach\<close>).
\<close>

definition visitOption ::
  "('c list \<Rightarrow> 'c list) \<Rightarrow> 'c list \<Rightarrow> 'c opt \<Rightarrow> 'c opt list \<Rightarrow> 'c opt list" where
  "visitOption toLowerCase filterKey item useableOptions =
     (case children item of
        Absent \<Rightarrow>
          if filterMatch toLowerCase (label item) filterKey then useableOptions @ [item]
          else useableOptions
      | Undef \<Rightarrow> useableOptions
      | Present cs \<Rightarrow>
          (let kept = fold (pushChild toLowerCase filterKey) cs []
           in if kept \<noteq> []
              then useableOptions @ [Option (label item) (val item) (icon item) (Present kept)]
              else useableOptions))"

text \<open>\<open>filterKey\<close> is \<open>filterMap[key]\<close>: \<open>undefined\<close> until the user types into the search box.\<close>

definition getSelectOptions ::
  "('c list \<Rightarrow> 'c list) \<Rightarrow> 'c opt list \<Rightarrow> 'c list option \<Rightarrow> 'c opt list" where
  "getSelectOptions toLowerCase options filterKey =
     (case filterKey of
        None \<Rightarrow> options
      | Some f \<Rightarrow> if f = [] then options else fold (visitOption toLowerCase f) options [])"

text \<open>
  The specification's reading of the search, to compare with the code: a label matches
  when the lower-cased search string is a contiguous part of the lower-cased label.
\<close>

definition spec_contains :: "('c list \<Rightarrow> 'c list) \<Rightarrow> 'c list \<Rightarrow> 'c list \<Rightarrow> bool" where
  "spec_contains toLowerCase v f = (\<exists>ps ss. toLowerCase v = ps @ toLowerCase f @ ss)"

definition spec_keep :: "('c list \<Rightarrow> 'c list) \<Rightarrow> 'c list \<Rightarrow> 'c opt \<Rightarrow> 'c opt option" where
  "spec_keep toLowerCase f item =
     (case children item of
        Absent \<Rightarrow> if spec_contains toLowerCase (label item) f then Some item else None
      | Undef \<Rightarrow> None
      | Present cs \<Rightarrow>
          (if \<exists>c \<in> set cs. spec_contains toLowerCase (label c) f
           then Some (Option (label item) (val item) (icon item)
                        (Present (filter (\<lambda>c. spec_contains toLowerCase (label c) f) cs)))
           else None))"

definition spec_getSelectOptions ::
  "('c list \<Rightarrow> 'c list) \<Rightarrow> 'c opt list \<Rightarrow> 'c list \<Rightarrow> 'c opt list" where
  "spec_getSelectOptions toLowerCase options f = List.map_filter (spec_keep toLowerCase f) options"

text \<open>
  Containment up to the case of letters, said without \<open>toLowerCase\<close>: some contiguous
  part of the label has the length of the search string and agrees with it character by
  character, where a capital ASCII letter agrees with its small letter.
\<close>

definition same_letter :: "char \<Rightarrow> char \<Rightarrow> bool" where
  "same_letter c d = (c = d \<or> (c, d) \<in> set ascii_letters \<or> (d, c) \<in> set ascii_letters)"

definition spec_contains_ignoring_case :: "string \<Rightarrow> string \<Rightarrow> bool" where
  "spec_contains_ignoring_case v f = (\<exists>ps m ss. v = ps @ m @ ss \<and> list_all2 same_letter m f)"

section \<open>Condition descriptors\<close>

datatype cond_type = Select | Input | DateRange | RangePicker | MemberSelector | TimespanRange | Custom

text \<open>
  The fields of a condition descriptor that the handlers below read. \<open>fixed\<close> is an
  optional boolean, and the code tells \<open>undefined\<close> from \<open>false\<close>
  (\<open>fixed !== false\<close>). \<open>options\<close> is the list the code uses (\<open>options || []\<close>),
  \<open>mode\<close> is \<open>customProps.mode\<close>. The \<open>showIndex\<close> bookkeeping, which only decides
  what is displayed, is left out.
\<close>

record condition =
  key :: string
  ctype :: cond_type
  fixed :: "bool option"
  required :: bool
  options :: "option_t list"
  firstShowLength :: "int option"
  mode :: "string option"

text \<open>What a filter item does when an event reaches it: the callbacks it invokes, in order.\<close>

datatype 'v effect =
    EmitChange string 'v bool   \<comment> \<open>\<open>onChange({ key, value }, { forceChange })\<close>\<close>
  | VisibleChange bool          \<comment> \<open>\<open>onVisibleChange(visible)\<close>\<close>
  | MessageError string         \<comment> \<open>\<open>message.error(text)\<close>, the error toast\<close>

section \<open>The select item\<close>

text \<open>
  The component state of a select item: the search text of its own key in \<open>filterMap\<close>
  and the \<open>hasMore\<close> flag.
\<close>

record select_state =
  filterKey :: "string option"
  hasMore :: bool








subsection \<open>Option groups\<close>

text \<open>
  The state of a \<open>GroupOpt\<close> component. Its prop \<open>firstShowLength\<close> (\<open>fsl\<close> below) is
  the number the select item passes on, 200 when the condition has none.
  \<open>childList\<close> is the children array of an option, empty when there is none.
\<close>

record group_state =
  expand :: bool
  groupHasMore :: bool





definition clickGroupLabel :: "group_state \<Rightarrow> group_state" where
  "clickGroupLabel g = g\<lparr> expand := \<not> expand g \<rparr>"

subsection \<open>What the dropdown renders\<close>




subsection \<open>Clicks on an option\<close>

text \<open>\<open>_value\<close>: the current value as a list of selected option values.\<close>

definition selected :: "jsval \<Rightarrow> prim list" where
  "selected v =
     (if truthy v then (case v of Scalar p \<Rightarrow> [p] | Arr xs \<Rightarrow> xs | Undefined \<Rightarrow> []) else [])"

definition isSingleMode :: "condition \<Rightarrow> bool" where
  "isSingleMode c = (mode c = Some ''single'')"

definition onClickOptItem :: "condition \<Rightarrow> jsval \<Rightarrow> option_t \<Rightarrow> jsval effect list" where
  "onClickOptItem c v curOpt =
     (if isSingleMode c then
        (if required c \<and> val curOpt \<in> set (selected v) then []
         else [EmitChange (key c)
                 (if val curOpt \<in> set (selected v) then Undefined else Scalar (val curOpt)) False,
               VisibleChange False])
      else
        (let newVal = (if val curOpt \<in> set (selected v)
                       then filter (\<lambda>x. x \<noteq> val curOpt) (selected v)
                       else selected v @ [val curOpt])
         in if required c \<and> newVal = [] then [] else [EmitChange (key c) (Arr newVal) False]))"

text \<open>
  The per-condition \<open>Clear selected\<close> link: \<open>None\<close> when it is not rendered, otherwise
  what a click on it does.
\<close>

definition clearSelectedLink :: "condition \<Rightarrow> jsval effect list option" where
  "clearSelectedLink c =
     (if \<not> isSingleMode c \<and> \<not> required c then Some [EmitChange (key c) Undefined False] else None)"

section \<open>The duration-range item\<close>

text \<open>
  A JavaScript number is a value of an ordered type or \<open>NaN\<close>; \<open>\<le>\<close> with \<open>NaN\<close> on
  either side is false. \<open>transformDuration\<close> (module \<open>common/components/duration\<close>) is a
  parameter; its result is \<open>Some\<close> number when lodash \<open>isNumber\<close> accepts it and
  \<open>None\<close> otherwise.
\<close>

datatype 'n jsnum = Finite 'n | NaN

fun js_le :: "('n::linorder) jsnum \<Rightarrow> 'n jsnum \<Rightarrow> bool" where
  "js_le (Finite a) (Finite b) = (a \<le> b)"
| "js_le _ _ = False"

fun js_gt :: "('n::linorder) jsnum \<Rightarrow> 'n jsnum \<Rightarrow> bool" where
  "js_gt (Finite a) (Finite b) = (b < a)"
| "js_gt _ _ = False"

text \<open>\<open>v?.[i]\<close>: \<open>undefined\<close> when \<open>v\<close> is, or when the array has no such element.\<close>

definition opt_at :: "'a option list option \<Rightarrow> nat \<Rightarrow> 'a option" where
  "opt_at v i = (case v of None \<Rightarrow> None | Some xs \<Rightarrow> if i < length xs then xs ! i else None)"

definition onDurationChange ::
  "('d option \<Rightarrow> ('n::linorder) jsnum option) \<Rightarrow> string \<Rightarrow> 'd option list option
     \<Rightarrow> ('d option list option) effect list" where
  "onDurationChange transformDuration k v =
     (let durationMin = transformDuration (opt_at v 0);
          durationMax = transformDuration (opt_at v 1)
      in case durationMin of
           Some mn \<Rightarrow>
             (case durationMax of
                Some mx \<Rightarrow>
                  if js_le mn mx then [EmitChange k v False]
                  else [MessageError ''msp:wrong duration'']
              | None \<Rightarrow> [])
         | None \<Rightarrow>
             (case durationMax of
                Some mx \<Rightarrow> []
              | None \<Rightarrow> [EmitChange k (Some []) False]))"

section \<open>The quick-add control\<close>

text \<open>
  The two tooltip texts come from \<open>i18n.t\<close> and are parameters. The functions below
  take the \<open>options\<close> prop as the list \<open>opts\<close> (an absent prop behaves as the empty
  list); \<open>qs_v\<close> is the state \<open>v\<close>, the text in the input field.
\<close>

record i18n =
  canNotBeEmpty :: string
  alreadyExists :: string

record quickSave =
  qs_v :: string
  tip :: string

definition mountQuickSave :: "i18n \<Rightarrow> quickSave" where
  "mountQuickSave t = \<lparr> qs_v = [], tip = canNotBeEmpty t \<rparr>"

text \<open>The update effect on \<open>v\<close>.\<close>

definition updateTip :: "i18n \<Rightarrow> option_t list \<Rightarrow> quickSave \<Rightarrow> quickSave" where
  "updateTip t opts st =
     st\<lparr> tip := (if qs_v st = [] then canNotBeEmpty t
                 else if qs_v st \<in> set (map label opts) then alreadyExists t
                 else []) \<rparr>"

text \<open>
  \<open>setV\<close>: a new text re-renders the control and runs the update effect; setting the
  text it already has does neither.
\<close>

definition setV :: "i18n \<Rightarrow> option_t list \<Rightarrow> string \<Rightarrow> quickSave \<Rightarrow> quickSave" where
  "setV t opts x st = (if x = qs_v st then st else updateTip t opts (st\<lparr> qs_v := x \<rparr>))"

text \<open>\<open>save\<close>: the list holds the arguments \<open>onSave\<close> is called with (at most one).\<close>

definition save :: "i18n \<Rightarrow> option_t list \<Rightarrow> quickSave \<Rightarrow> string list \<times> quickSave" where
  "save t opts st = ((if tip st = [] then [qs_v st] else []), setV t opts [] st)"

datatype quick_event = Type string | ClickSave

fun quick_step :: "i18n \<Rightarrow> option_t list \<Rightarrow> quick_event \<Rightarrow> quickSave \<Rightarrow> quickSave" where
  "quick_step t opts (Type x) st = setV t opts x st"
| "quick_step t opts ClickSave st = snd (save t opts st)"

text \<open>The state of the control after a sequence of events, from its first render.\<close>

definition quick_run :: "i18n \<Rightarrow> option_t list \<Rightarrow> quick_event list \<Rightarrow> quickSave" where
  "quick_run t opts evs = fold (quick_step t opts) evs (mountQuickSave t)"

section \<open>The filter bar\<close>

text \<open>
  The value map is an object from condition keys to values; a key can be present with the
  value \<open>undefined\<close> (\<open>Some Undefined\<close>).
\<close>

type_synonym vmap = "string \<rightharpoonup> jsval"

text \<open>The props of the bar that the handlers read; \<open>valuesProp\<close> is the prop \<open>values\<close>.\<close>

record props =
  delay :: int
  initValue :: "vmap option"
  valuesProp :: "vmap option"
  propsConditions :: "condition list"

text \<open>
  The state of the bar. \<open>valueMapRef\<close> is the ref that an effect sets to a copy of
  \<open>valueMap\<close> after each render in which the value map changed; \<open>debouncedWait\<close> is the
  wait of the debounced instance, which is created once, in the first render, from the
  \<open>onChange\<close> and \<open>delay\<close> props of that render.
\<close>

record bar =
  conditions :: "condition list"
  valueMap :: vmap
  valueMapRef :: "vmap option"
  activeMap :: "string \<rightharpoonup> bool"
  debouncedWait :: int

text \<open>
  A call of the upstream \<open>onChange\<close>, with its two arguments: through the debounced
  instance (with the wait of that instance), or directly.
\<close>

datatype upstream = Debounced int vmap jsval | Immediate vmap jsval

text \<open>
  The first argument of \<open>handelItemChange\<close>: a \<open>{ key, value }\<close> pair from a filter
  item, or a whole value map together with \<open>batchChange: true\<close>.
\<close>

datatype change = ItemChange string jsval | BatchChange vmap

text \<open>
  The effect on \<open>valueMap\<close>, and the first render: the value map starts as
  \<open>values || initValue || {}\<close>, and the conditions are those of the props
  (\<open>getInitConditions\<close> changes \<open>showIndex\<close> fields only).
\<close>

definition renderEffects :: "bar \<Rightarrow> bar" where
  "renderEffects b = b\<lparr> valueMapRef := Some (valueMap b) \<rparr>"

definition mountBar :: "props \<Rightarrow> bar" where
  "mountBar p =
     renderEffects
       \<lparr> conditions = propsConditions p,
         valueMap = (case valuesProp p of
                       Some m \<Rightarrow> m
                     | None \<Rightarrow> (case initValue p of Some m \<Rightarrow> m | None \<Rightarrow> Map.empty)),
         valueMapRef = None,
         activeMap = Map.empty,
         debouncedWait = delay p \<rparr>"

text \<open>\<open>{ ...valueMapRef.current }\<close>: spreading \<open>undefined\<close> gives the empty object.\<close>

definition refMap :: "bar \<Rightarrow> vmap" where
  "refMap b = (case valueMapRef b of None \<Rightarrow> Map.empty | Some m \<Rightarrow> m)"

text \<open>\<open>newValueMap?.key\<close>, the second argument of the upstream call.\<close>

fun changedKey :: "change \<Rightarrow> jsval" where
  "changedKey (ItemChange k v) = Scalar (Str k)"
| "changedKey (BatchChange m) = (case m ''key'' of None \<Rightarrow> Undefined | Some v \<Rightarrow> v)"

fun mergeChange :: "vmap \<Rightarrow> change \<Rightarrow> vmap" where
  "mergeChange prev (ItemChange k v) = prev(k \<mapsto> v)"
| "mergeChange prev (BatchChange m) = prev ++ m"

definition handelItemChange :: "props \<Rightarrow> bar \<Rightarrow> change \<Rightarrow> bool \<Rightarrow> bar \<times> upstream list" where
  "handelItemChange p b newValueMap forceChange =
     (let curValueMap = mergeChange (refMap b) newValueMap;
          b' = b\<lparr> valueMap := mergeChange (valueMap b) newValueMap \<rparr>
      in if delay p \<noteq> 0 \<and> \<not> forceChange
         then (b', [Debounced (debouncedWait b) curValueMap (changedKey newValueMap)])
         else (b', [Immediate curValueMap (changedKey newValueMap)]))"

text \<open>
  What the bar does with the callbacks of the item rendered for the condition with key
  \<open>itemKey\<close>: \<open>onChange\<close> is \<open>handelItemChange\<close>, \<open>onVisibleChange\<close> records the flag in
  \<open>activeMap\<close>, and the toast leaves the bar alone.
\<close>

fun dispatch :: "props \<Rightarrow> string \<Rightarrow> jsval effect \<Rightarrow> bar \<Rightarrow> bar \<times> upstream list" where
  "dispatch p itemKey (EmitChange k v forceChange) b = handelItemChange p b (ItemChange k v) forceChange"
| "dispatch p itemKey (VisibleChange vis) b = (b\<lparr> activeMap := (activeMap b)(itemKey \<mapsto> vis) \<rparr>, [])"
| "dispatch p itemKey (MessageError m) b = (b, [])"

fun dispatch_all :: "props \<Rightarrow> string \<Rightarrow> jsval effect list \<Rightarrow> bar \<Rightarrow> bar \<times> upstream list" where
  "dispatch_all p itemKey [] b = (b, [])"
| "dispatch_all p itemKey (e # es) b =
     (let (b', out) = dispatch p itemKey e b;
          (b'', out') = dispatch_all p itemKey es b'
      in (b'', out @ out'))"

text \<open>
  The bar after a sequence of events, from its first render with props \<open>p\<close>: each event
  is a callback of the item of some condition, and the effects of the render that follows
  run before the next event.
\<close>

definition bar_step :: "props \<Rightarrow> string \<times> jsval effect \<Rightarrow> bar \<Rightarrow> bar" where
  "bar_step p e b = renderEffects (fst (dispatch p (fst e) (snd e) b))"

definition bar_run :: "props \<Rightarrow> (string \<times> jsval effect) list \<Rightarrow> bar" where
  "bar_run p evs = fold (bar_step p) evs (mountBar p)"

text \<open>The value the bar passes to the item of condition \<open>c\<close>: \<open>valueMap[item.key]\<close>.\<close>

definition itemValue :: "bar \<Rightarrow> condition \<Rightarrow> jsval" where
  "itemValue b c = (case valueMap b (key c) of None \<Rightarrow> Undefined | Some v \<Rightarrow> v)"

subsection \<open>The global clear-selected action\<close>

text \<open>The decimal numeral of a natural number, the property key of an array index.\<close>

function show_nat :: "nat \<Rightarrow> string" where
  "show_nat n =
     (if n < 10 then [''0123456789'' ! n]
      else show_nat (n div 10) @ [''0123456789'' ! (n mod 10)])"
  by pat_completeness auto
termination
  by (relation "measure id") auto

declare show_nat.simps [simp del]

text \<open>
  \<open>conditions[_k]\<close>, where \<open>conditions\<close> is an array and \<open>_k\<close> a key of the value map:
  the element at index \<open>i\<close> when \<open>_k\<close> is the numeral of an index \<open>i\<close> of the array. For
  every other key the lookup gives \<open>undefined\<close> or a member of the array prototype, and
  \<open>fixed\<close> and \<open>type\<close> of the result are \<open>undefined\<close>: \<open>None\<close>.
\<close>

definition array_get :: "condition list \<Rightarrow> string \<Rightarrow> condition option" where
  "array_get conds k =
     (case find (\<lambda>i. show_nat i = k) [0..<length conds] of
        None \<Rightarrow> None
      | Some i \<Rightarrow> Some (conds ! i))"

text \<open>\<open>curConditions.fixed || (curConditions.type === 'input' && curConditions.fixed !== false)\<close>\<close>

definition keptOnClear :: "condition option \<Rightarrow> bool" where
  "keptOnClear cur =
     (case cur of
        None \<Rightarrow> False
      | Some c \<Rightarrow> fixed c = Some True \<or> (ctype c = Input \<and> fixed c \<noteq> Some False))"

text \<open>\<open>initValue?.[_k] ?? undefined\<close>\<close>

definition initValueAt :: "props \<Rightarrow> string \<Rightarrow> jsval" where
  "initValueAt p k =
     (case initValue p of
        None \<Rightarrow> Undefined
      | Some m \<Rightarrow> (case m k of None \<Rightarrow> Undefined | Some v \<Rightarrow> v))"

text \<open>
  lodash \<open>map\<close> walks the own keys of a plain object, but an object with a \<open>length\<close>
  entry that is a whole number from 0 to \<open>2^53 - 1\<close> is array-like: \<open>map\<close> then walks
  the indices below that length, and first allocates a result array of that length,
  which throws a \<open>RangeError\<close> above \<open>2^32 - 1\<close>.
\<close>

datatype js_error = RangeError

definition arrayLikeLength :: "vmap \<Rightarrow> nat option" where
  "arrayLikeLength m =
     (case m ''length'' of
        Some (Scalar (Num n)) \<Rightarrow> if 0 \<le> n \<and> n \<le> 9007199254740991 then Some (nat n) else None
      | _ \<Rightarrow> None)"

text \<open>
  \<open>newValueMap\<close> after the \<open>map\<close> callback has run. Walking keys, the callback gets
  each key \<open>_k\<close> of the value map; walking indices, \<open>_k\<close> is a number \<open>i\<close>,
  \<open>conditions[_k]\<close> is the element at \<open>i\<close>, and \<open>newValueMap[_k]\<close> is the entry whose
  key is the numeral of \<open>i\<close>.
\<close>

definition clearedValueMap :: "props \<Rightarrow> bar \<Rightarrow> vmap" where
  "clearedValueMap p b =
     (case arrayLikeLength (valueMap b) of
        None \<Rightarrow>
          (\<lambda>k. case valueMap b k of
                  None \<Rightarrow> None
                | Some v \<Rightarrow>
                    if \<not> keptOnClear (array_get (conditions b) k) then Some (initValueAt p k)
                    else Some v)
      | Some n \<Rightarrow>
          (\<lambda>k. case find (\<lambda>i. show_nat i = k) [0..<n] of
                  None \<Rightarrow> valueMap b k
                | Some i \<Rightarrow>
                    if \<not> keptOnClear (if i < length (conditions b) then Some (conditions b ! i) else None)
                    then Some (initValueAt p k)
                    else valueMap b k))"

text \<open>
  \<open>handleClearSelected\<close>. The \<open>setConditions\<close> call changes \<open>showIndex\<close> fields only.
  When \<open>map\<close> throws, \<open>handelItemChange\<close> is not reached.
\<close>

definition handleClearSelected :: "props \<Rightarrow> bar \<Rightarrow> js_error + bar \<times> upstream list" where
  "handleClearSelected p b =
     (case arrayLikeLength (valueMap b) of
        Some n \<Rightarrow>
          if 4294967295 < n then Inl RangeError
          else Inr (handelItemChange p b (BatchChange (clearedValueMap p b)) False)
      | None \<Rightarrow> Inr (handelItemChange p b (BatchChange (clearedValueMap p b)) False))"

section \<open>The progress column\<close>

text \<open>
  The issue counts of one category in \<open>issueSummary\<close>; \<open>doneIssues\<close> and
  \<open>undoneIssues\<close> stand for the properties \<open>done\<close> and \<open>undone\<close>. The summary of a
  record is the list of the values of its \<open>issueSummary\<close> object, empty without one.
\<close>

record issue_count =
  doneIssues :: nat
  undoneIssues :: nat

definition sumBy :: "'a list \<Rightarrow> ('a \<Rightarrow> nat) \<Rightarrow> nat" where
  "sumBy xs f = sum_list (map f xs)"

subsection \<open>Double-precision numbers\<close>

text \<open>
  A non-negative double is a pair \<open>(m, k)\<close> that stands for \<open>m / 2 ^ k\<close>, with a
  negative \<open>k\<close> for a multiple of a power of two. Sums of counts are whole numbers
  and exact below \<open>2 ^ 53\<close>; a quotient and a product are rounded to the nearest double,
  a tie to the even mantissa, which is what \<open>/\<close> and \<open>*\<close> do. The results here lie
  between \<open>2 ^ - 53\<close> and 100, far from the subnormal numbers and from overflow.
\<close>

type_synonym double = "nat \<times> int"

definition dval :: "double \<Rightarrow> rat" where
  "dval d = of_nat (fst d * 2 ^ nat (- snd d)) / of_nat (2 ^ nat (snd d))"

text \<open>The number of binary digits of a natural number.\<close>

function blen :: "nat \<Rightarrow> nat" where
  "blen n = (if n = 0 then 0 else Suc (blen (n div 2)))"
  by pat_completeness auto
termination
  by (relation "measure id") auto

declare blen.simps [simp del]

text \<open>\<open>a / b\<close> rounded to the nearest whole number, a tie to the even one.\<close>

definition rdiv :: "nat \<Rightarrow> nat \<Rightarrow> nat" where
  "rdiv a b =
     (let q = a div b; r = a mod b
      in if 2 * r < b then q else if b < 2 * r then q + 1 else if even q then q else q + 1)"

text \<open>
  The double nearest to \<open>a / b\<close>, for \<open>b > 0\<close>: the exponent \<open>k\<close> is the one for
  which \<open>a * 2 ^ k / b\<close> lies from \<open>2 ^ 52\<close> up to \<open>2 ^ 53\<close>, and the mantissa is that
  number rounded.
\<close>

definition fl_ratio :: "nat \<Rightarrow> nat \<Rightarrow> double" where
  "fl_ratio a b =
     (if a = 0 then (0, 0)
      else
        (let k0 = 53 + int (blen b) - int (blen a);
             k = (if 2 ^ 53 * (b * 2 ^ nat (- k0)) \<le> a * 2 ^ nat k0 then k0 - 1 else k0)
         in (rdiv (a * 2 ^ nat k) (b * 2 ^ nat (- k)), k)))"

text \<open>\<open>a / b\<close> for two whole numbers, and \<open>x * 100\<close> for a double \<open>x\<close>.\<close>

definition js_divide :: "nat \<Rightarrow> nat \<Rightarrow> double" where
  "js_divide a b = fl_ratio a b"

definition js_times100 :: "double \<Rightarrow> double" where
  "js_times100 x = fl_ratio (100 * (fst x * 2 ^ nat (- snd x))) (2 ^ nat (snd x))"

text \<open>
  \<open>x.toFixed(1)\<close>, as the number of tenths it prints: the whole number \<open>n\<close> for which
  \<open>n / 10\<close> is nearest to the double \<open>x\<close> itself, the larger one of two. The column shows
  the number that \<open>+percent\<close> reads back from that text.
\<close>

definition toFixed1 :: "double \<Rightarrow> nat" where
  "toFixed1 x = (2 * (10 * (fst x * 2 ^ nat (- snd x))) + 2 ^ nat (snd x)) div (2 * 2 ^ nat (snd x))"

text \<open>
  The \<open>render\<close> of the progress column. \<open>sumBy\<close> of no categories is \<open>undefined\<close>,
  which \<open>|| 0\<close> makes 0; the percentage is given in tenths.
\<close>

definition doneTotal :: "issue_count list \<Rightarrow> nat" where
  "doneTotal issueSummary = sumBy issueSummary doneIssues"

definition totalCount :: "issue_count list \<Rightarrow> nat" where
  "totalCount issueSummary = sumBy issueSummary undoneIssues + doneTotal issueSummary"

definition percentTenths :: "issue_count list \<Rightarrow> nat" where
  "percentTenths issueSummary =
     toFixed1
       (js_times100
         (if totalCount issueSummary \<noteq> 0
          then js_divide (doneTotal issueSummary) (totalCount issueSummary)
          else (0, 0)))"

text \<open>
  The specification's reading of the percentage, to compare with the code: the exact
  quotient in tenths, rounded to the nearest whole number of tenths, a tie upwards.
\<close>

definition spec_percentTenths :: "nat \<Rightarrow> nat \<Rightarrow> int" where
  "spec_percentTenths doneSum allSum =
     (if allSum = 0 then 0
      else \<lfloor>(1000 * of_nat doneSum / of_nat allSum :: rat) + 1 / 2\<rfloor>)"

section \<open>The iteration view\<close>

text \<open>
  An iteration record, with the fields the view reads. The record type is extensible: a
  record of the store has further fields, which the view passes around untouched.
\<close>

record iteration =
  it_id :: int
  title :: string
  content :: string
  startedAt :: string
  finishedAt :: string
  it_state :: string

text \<open>The argument of the update-by-id effect as \<open>onFiled\<close> builds it.\<close>

record edit_payload =
  p_id :: int
  p_startedAt :: string
  p_finishedAt :: string
  p_title :: string
  p_content :: string
  p_state :: string

text \<open>
  The argument of the list fetch. \<open>'n\<close> is the type of JavaScript numbers that
  \<open>+projectId\<close> produces from the route parameter.
\<close>

record 'n list_query =
  q_state :: "string option"
  q_pageNo :: int
  q_pageSize :: "int option"
  projectID :: 'n

text \<open>The argument \<open>q\<close> of \<open>getList\<close>: an absent key is \<open>None\<close>.\<close>

record overrides =
  o_pageNo :: "int option"
  o_pageSize :: "int option"

datatype 'n store_call =
    GetIterations "'n list_query"
  | DeleteIteration int
  | EditIteration edit_payload

text \<open>
  What a handler of the view does: a store effect with the continuation its promise runs
  once it resolves (\<open>.then\<close>), a confirmation dialog with its \<open>onOk\<close>, or an update of
  the view's own state.
\<close>

datatype 'n cmd =
    Call "'n store_call" "'n cmd list"
  | ModalConfirm "'n cmd list"
  | UpdateCurDetail "iteration option"
  | UpdateModalVisible bool

text \<open>
  The store calls a command makes, given whether the user confirms a dialog and which
  promises resolve.
\<close>

fun exec :: "bool \<Rightarrow> ('n store_call \<Rightarrow> bool) \<Rightarrow> 'n cmd \<Rightarrow> 'n store_call list" where
  "exec ok resolves (Call c k) = c # (if resolves c then concat (map (exec ok resolves) k) else [])"
| "exec ok resolves (ModalConfirm k) = (if ok then concat (map (exec ok resolves) k) else [])"
| "exec ok resolves (UpdateCurDetail d) = []"
| "exec ok resolves (UpdateModalVisible b) = []"

definition exec_all :: "bool \<Rightarrow> ('n store_call \<Rightarrow> bool) \<Rightarrow> 'n cmd list \<Rightarrow> 'n store_call list" where
  "exec_all ok resolves cs = concat (map (exec ok resolves) cs)"

text \<open>
  The view: the selected tab \<open>status\<close>, the route parameter \<open>projectId\<close>, and \<open>toNumber\<close>
  for the unary plus applied to it.
\<close>

record 'n view =
  status :: string
  projectId :: string
  toNumber :: "string \<Rightarrow> 'n"

text \<open>The values of the two tabs (\<open>options\<close> of the radio tabs).\<close>

definition tabValues :: "string list" where
  "tabValues = [''unarchive'', ''archived'']"

definition iterationStateMap :: "string \<rightharpoonup> string" where
  "iterationStateMap = map_of [(''archived'', ''FILED''), (''unarchive'', ''UNFILED'')]"

text \<open>
  \<open>getList(q)\<close> calls \<open>getIterations({ ...query, ...q, projectID: +projectId })\<close> with
  \<open>query = { state: iterationStateMap[status], pageNo: 1 }\<close>.
\<close>

definition getList :: "'n view \<Rightarrow> overrides \<Rightarrow> 'n cmd" where
  "getList vw q =
     Call (GetIterations
             \<lparr> q_state = iterationStateMap (status vw),
               q_pageNo = (case o_pageNo q of None \<Rightarrow> 1 | Some n \<Rightarrow> n),
               q_pageSize = o_pageSize q,
               projectID = toNumber vw (projectId vw) \<rparr>) []"

definition noOverrides :: overrides where
  "noOverrides = \<lparr> o_pageNo = None, o_pageSize = None \<rparr>"

definition pageOne :: overrides where
  "pageOne = \<lparr> o_pageNo = Some 1, o_pageSize = None \<rparr>"

text \<open>
  The effect with the dependency \<open>getList\<close> runs after the first render, and after a
  later render when \<open>getList\<close> is a new function: when \<open>query\<close> (a memo on \<open>status\<close>)
  or \<open>projectId\<close> has changed since the render before. It calls \<open>getList()\<close>.
\<close>

definition mountView :: "'n view \<Rightarrow> 'n cmd list" where
  "mountView vw = [getList vw noOverrides]"

definition effectOnGetList :: "'n view \<Rightarrow> 'n view \<Rightarrow> 'n cmd list" where
  "effectOnGetList old new =
     (if status new \<noteq> status old \<or> projectId new \<noteq> projectId old
      then [getList new noOverrides] else [])"

text \<open>The radio tabs call \<open>setStatus(v)\<close>; the view renders again with the new status.\<close>

definition onTabChange :: "string \<Rightarrow> 'n view \<Rightarrow> 'n view \<times> 'n cmd list" where
  "onTabChange v vw = (let vw' = vw\<lparr> status := v \<rparr> in (vw', effectOnGetList vw vw'))"

definition onDelete :: "'n view \<Rightarrow> int \<Rightarrow> 'n cmd list" where
  "onDelete vw i = [Call (DeleteIteration i) [getList vw pageOne]]"

definition onEdit :: "iteration \<Rightarrow> 'n cmd list" where
  "onEdit item = [UpdateCurDetail (Some item), UpdateModalVisible True]"

definition onFiled :: "'n view \<Rightarrow> 'a iteration_scheme \<Rightarrow> string \<Rightarrow> 'n cmd list" where
  "onFiled vw record operation =
     [Call (EditIteration
              \<lparr> p_id = it_id record,
                p_startedAt = startedAt record,
                p_finishedAt = finishedAt record,
                p_title = title record,
                p_content = content record,
                p_state = operation \<rparr>)
           [getList vw pageOne]]"

text \<open>
  A row action: the i18n key of its title, the permission passed to the \<open>WithAuth\<close>
  around the title, and its click handler.
\<close>

datatype perm = OperationAuth | HandleFiledAuth

record 'n action =
  a_title :: string
  a_pass :: perm
  a_onClick :: "'n cmd list"

definition actions :: "'n view \<Rightarrow> iteration \<Rightarrow> 'n action list" where
  "actions vw record =
     (if it_state record = ''FILED'' then
        [\<lparr> a_title = ''dop:Unarchive'', a_pass = HandleFiledAuth,
           a_onClick = onFiled vw record ''UNFILED'' \<rparr>]
      else
        [\<lparr> a_title = ''Edit'', a_pass = OperationAuth, a_onClick = onEdit record \<rparr>,
         \<lparr> a_title = ''Archive'', a_pass = HandleFiledAuth,
           a_onClick = onFiled vw record ''FILED'' \<rparr>,
         \<lparr> a_title = ''Delete'', a_pass = OperationAuth,
           a_onClick = [ModalConfirm (onDelete vw (it_id record))] \<rparr>])"

section \<open>Concrete inputs\<close>

abbreviation ex_open :: option_t where
  "ex_open \<equiv> Option ''Open'' (Str ''open'') None Absent"

abbreviation ex_closed :: option_t where
  "ex_closed \<equiv> Option ''Closed'' (Str ''closed'') None Absent"

text \<open>A required multi-select condition, and the same condition in single mode.\<close>

abbreviation ex_status :: condition where
  "ex_status \<equiv>
     \<lparr> key = ''status'', ctype = Select, fixed = None, required = True,
       options = [ex_open, ex_closed], firstShowLength = None, mode = None \<rparr>"

abbreviation ex_status_single :: condition where
  "ex_status_single \<equiv>
     \<lparr> key = ''status'', ctype = Select, fixed = None, required = True,
       options = [ex_open, ex_closed], firstShowLength = None, mode = Some ''single'' \<rparr>"

abbreviation ex_props :: props where
  "ex_props \<equiv>
     \<lparr> delay = 300, initValue = None, valuesProp = None, propsConditions = [ex_status] \<rparr>"

abbreviation ex_props_single :: props where
  "ex_props_single \<equiv>
     \<lparr> delay = 300, initValue = None, valuesProp = None, propsConditions = [ex_status_single] \<rparr>"

text \<open>The bar after the option \<open>Open\<close> has been selected.\<close>

abbreviation ex_bar :: bar where
  "ex_bar \<equiv> bar_run ex_props [(''status'', EmitChange ''status'' (Arr [Str ''open'']) False)]"

abbreviation ex_bar_single :: bar where
  "ex_bar_single \<equiv>
     bar_run ex_props_single [(''status'', EmitChange ''status'' (Scalar (Str ''open'')) False)]"

abbreviation ex_view :: "int view" where
  "ex_view \<equiv>
     \<lparr> status = ''unarchive'', projectId = ''7'', toNumber = (\<lambda>s. if s = ''7'' then 7 else 0) \<rparr>"

abbreviation ex_sprint :: iteration where
  "ex_sprint \<equiv>
     \<lparr> it_id = 3, title = ''Sprint 1'', content = ''ship'', startedAt = ''2021-01-01'',
       finishedAt = ''2021-01-14'', it_state = ''UNFILED'' \<rparr>"

abbreviation ex_sprint_filed :: iteration where
  "ex_sprint_filed \<equiv>
     \<lparr> it_id = 4, title = ''Sprint 0'', content = ''plan'', startedAt = ''2020-12-01'',
       finishedAt = ''2020-12-14'', it_state = ''FILED'' \<rparr>"





text \<open>
  The issue summary of an iteration with one issue done out of three, and one with 23
  issues done out of 80.
\<close>

abbreviation ex_summary :: "issue_count list" where
  "ex_summary \<equiv>
     [\<lparr> doneIssues = 1, undoneIssues = 1 \<rparr>, \<lparr> doneIssues = 0, undoneIssues = 1 \<rparr>]"

abbreviation ex_tie :: "issue_count list" where
  "ex_tie \<equiv> [\<lparr> doneIssues = 23, undoneIssues = 57 \<rparr>]"
section \<open>Properties of the option search\<close>

lemma starts_iff: "starts f v \<longleftrightarrow> (\<exists>ss. v = f @ ss)"
  by (induction f v rule: starts.induct) auto

lemma includes_iff: "str_includes v f \<longleftrightarrow> (\<exists>ps ss. v = ps @ f @ ss)"
proof (induction v)
  case Nil
  then show ?case by auto
next
  case (Cons y v)
  show ?case
  proof
    assume "str_includes (y # v) f"
    then consider "starts f (y # v)" | "str_includes v f" by auto
    then show "\<exists>ps ss. y # v = ps @ f @ ss"
    proof cases
      case 1
      then obtain ss where "y # v = f @ ss" using starts_iff by blast
      then have "y # v = [] @ f @ ss" by simp
      then show ?thesis by blast
    next
      case 2
      then obtain ps ss where "v = ps @ f @ ss" using Cons.IH by blast
      then have "y # v = (y # ps) @ f @ ss" by simp
      then show ?thesis by blast
    qed
  next
    assume "\<exists>ps ss. y # v = ps @ f @ ss"
    then obtain ps ss where e: "y # v = ps @ f @ ss" by blast
    show "str_includes (y # v) f"
    proof (cases ps)
      case Nil
      with e have "starts f (y # v)" using starts_iff by auto
      then show ?thesis by simp
    next
      case (Cons p ps')
      with e have "v = ps' @ f @ ss" by simp
      then have "str_includes v f" using Cons.IH by blast
      then show ?thesis by simp
    qed
  qed
qed

lemma filterMatch_spec_contains: "filterMatch lc v f = spec_contains lc v f"
  by (simp add: filterMatch_def spec_contains_def includes_iff)

lemma fold_pushChild:
  "fold (pushChild lc f) cs acc = acc @ filter (\<lambda>c. spec_contains lc (label c) f) cs"
  by (induction cs arbitrary: acc) (simp_all add: pushChild_def filterMatch_spec_contains)

lemma visitOption_spec:
  "visitOption lc f item acc = acc @ (case spec_keep lc f item of None \<Rightarrow> [] | Some x \<Rightarrow> [x])"
  by (cases "children item")
     (auto simp: visitOption_def spec_keep_def fold_pushChild filterMatch_spec_contains
        filter_empty_conv Let_def)

lemma fold_visitOption:
  "fold (visitOption lc f) opts acc = acc @ List.map_filter (spec_keep lc f) opts"
  by (induction opts arbitrary: acc)
     (simp_all add: visitOption_spec List.map_filter_simps split: option.splits)

text \<open>A table of pairs with distinct keys, distinct values, and no key among the values.\<close>

lemma table_fold_eq:
  assumes "distinct (map fst T)" and "distinct (map snd T)"
    and "set (map fst T) \<inter> set (map snd T) = {}"
  shows "((case map_of T c of Some l \<Rightarrow> l | None \<Rightarrow> c) = (case map_of T d of Some l \<Rightarrow> l | None \<Rightarrow> d))
           = (c = d \<or> (c, d) \<in> set T \<or> (d, c) \<in> set T)"
proof -
  have key: "(map_of T x = Some y) = ((x, y) \<in> set T)" for x y
    using assms(1) by simp
  have none: "(x, y) \<notin> set T" if "map_of T x = None" for x y
    using that key [of x y] by simp
  have snd_inj: "inj_on snd (set T)"
    using assms(2) by (simp add: distinct_map)
  have inj: "x = x'" if "(x, y) \<in> set T" and "(x', y) \<in> set T" for x x' y
    using that snd_inj unfolding inj_on_def by force
  have apart: "(y, z) \<notin> set T" if "(x, y) \<in> set T" for x y z
  proof
    assume "(y, z) \<in> set T"
    then have "y \<in> set (map fst T)" by force
    moreover from that have "y \<in> set (map snd T)" by force
    ultimately show False using assms(3) by blast
  qed
  show ?thesis
  proof (cases "map_of T c")
    case None
    note cn = None
    show ?thesis
    proof (cases "map_of T d")
      case None
      with cn none [of c d] none [of d c] show ?thesis by simp
    next
      case (Some l)
      then have dl: "(d, l) \<in> set T" using key by simp
      have "(l = c) = ((d, c) \<in> set T)"
        using Some key [of d c] by auto
      moreover have "c \<noteq> d" using cn Some by auto
      ultimately show ?thesis using cn Some none [of c d] by auto
    qed
  next
    case (Some l)
    note cs = Some
    then have cl: "(c, l) \<in> set T" using key by simp
    show ?thesis
    proof (cases "map_of T d")
      case None
      have "(l = d) = ((c, d) \<in> set T)"
        using cs key [of c d] by auto
      moreover have "c \<noteq> d" using cs None by auto
      ultimately show ?thesis using cs None none [of d c] by auto
    next
      case (Some l')
      then have dl: "(d, l') \<in> set T" using key by simp
      have "(l = l') = (c = d)"
      proof
        assume "l = l'"
        with cl dl show "c = d" using inj by blast
      next
        assume "c = d"
        with cs Some show "l = l'" by simp
      qed
      moreover have "(c, d) \<notin> set T" using dl apart [of c d l'] by blast
      moreover have "(d, c) \<notin> set T" using cl apart [of d c l] by blast
      ultimately show ?thesis using cs Some by simp
    qed
  qed
qed

lemma lower_char_eq: "(lower_char c = lower_char d) = same_letter c d"
proof -
  have "distinct (map fst ascii_letters)" and "distinct (map snd ascii_letters)"
    and "set (map fst ascii_letters) \<inter> set (map snd ascii_letters) = {}"
    by (simp_all add: ascii_letters_def)
  from table_fold_eq [OF this] show ?thesis
    by (simp add: lower_char_def same_letter_def)
qed

lemma map_lower_eq: "(map lower_char m = map lower_char f) = list_all2 same_letter m f"
proof (induction m arbitrary: f)
  case Nil
  then show ?case by auto
next
  case (Cons a m)
  show ?case by (cases f) (simp_all add: Cons.IH lower_char_eq)
qed

lemma ascii_contains:
  "spec_contains toLowerCase_ascii v f = spec_contains_ignoring_case v f"
proof
  assume "spec_contains toLowerCase_ascii v f"
  then obtain ps ss where "map lower_char v = ps @ (map lower_char f @ ss)"
    by (auto simp: spec_contains_def toLowerCase_ascii_def)
  then have "\<exists>us r. v = us @ r \<and> ps = map lower_char us \<and> map lower_char f @ ss = map lower_char r"
    by (simp add: map_eq_append_conv)
  then obtain us r where v: "v = us @ r" and r: "map lower_char f @ ss = map lower_char r"
    by blast
  from r have "\<exists>m ws. r = m @ ws \<and> map lower_char f = map lower_char m \<and> ss = map lower_char ws"
    by (simp add: append_eq_map_conv)
  then obtain m ws where "r = m @ ws" and "map lower_char m = map lower_char f"
    by auto
  with v have "v = us @ m @ ws \<and> list_all2 same_letter m f"
    by (simp add: map_lower_eq)
  then show "spec_contains_ignoring_case v f"
    unfolding spec_contains_ignoring_case_def by blast
next
  assume "spec_contains_ignoring_case v f"
  then obtain ps m ss where "v = ps @ m @ ss" and "list_all2 same_letter m f"
    unfolding spec_contains_ignoring_case_def by blast
  then have "map lower_char v = map lower_char ps @ map lower_char f @ map lower_char ss"
    by (simp add: map_lower_eq)
  then show "spec_contains toLowerCase_ascii v f"
    unfolding spec_contains_def toLowerCase_ascii_def by blast
qed

text \<open>
  Claim C9, as the code has it. For every option list and search string,
  \<open>getSelectOptions\<close> returns the input list unchanged when the search string is empty
  (or undefined). Otherwise it returns, in the order of the input, exactly the options
  without a \<open>children\<close> field whose lower-cased label contains the lower-cased search
  string, and the options with a \<open>children\<close> field that have at least one child whose label
  matches in that way, each with its children narrowed to the matching ones; both strings
  are lower-cased by \<open>toLowerCase\<close>, whatever that function does. On strings of ASCII
  characters a label matches exactly when it contains the search string up to the case of
  letters.
\<close>

theorem getSelectOptions_spec:
  "getSelectOptions lc opts None = opts
   \<and> getSelectOptions lc opts (Some []) = opts
   \<and> (f \<noteq> [] \<longrightarrow> getSelectOptions lc opts (Some f) = spec_getSelectOptions lc opts f)
   \<and> filterMatch toLowerCase_ascii v g = spec_contains_ignoring_case v g"
  by (simp add: getSelectOptions_def spec_getSelectOptions_def fold_visitOption
        filterMatch_spec_contains ascii_contains)

theorem getSelectOptions_spec_witness:
  "''OPEN'' \<noteq> [] \<and>
   spec_getSelectOptions toLowerCase_ascii
     [Option ''Open'' (Str ''open'') None Absent,
      Option ''Closed'' (Str ''closed'') None Absent,
      Option ''Severity'' (Num 1) None
        (Present [Option ''Reopened'' (Str ''re'') None Absent, Option ''Low'' (Str ''low'') None Absent]),
      Option ''Opening group'' (Num 2) None (Present [Option ''High'' (Str ''high'') None Absent]),
      Option ''Unopened'' (Num 3) None Undef] ''OPEN''
   = [Option ''Open'' (Str ''open'') None Absent,
      Option ''Severity'' (Num 1) None (Present [Option ''Reopened'' (Str ''re'') None Absent])]
   \<and> spec_contains_ignoring_case ''Reopened'' ''OPEN''"
  using getSelectOptions_spec [where lc = toLowerCase_ascii and f = "''OPEN''"
      and v = "''Reopened''" and g = "''OPEN''" and opts =
     "[Option ''Open'' (Str ''open'') None Absent,
      Option ''Closed'' (Str ''closed'') None Absent,
      Option ''Severity'' (Num 1) None
        (Present [Option ''Reopened'' (Str ''re'') None Absent, Option ''Low'' (Str ''low'') None Absent]),
      Option ''Opening group'' (Num 2) None (Present [Option ''High'' (Str ''high'') None Absent]),
      Option ''Unopened'' (Num 3) None Undef]"]
  by (simp add: getSelectOptions_def visitOption_def pushChild_def filterMatch_def
        toLowerCase_ascii_def lower_char_def ascii_letters_def)

text \<open>
  The label is capital alpha, capital sigma; the search string is capital sigma. The label
  contains the search string as it is, yet the option is not returned: in the label the
  sigma is final and is lower-cased to 962, alone it is lower-cased to 963.
\<close>

theorem final_sigma_counterexample:
  "[913, 931] = [913] @ [931] @ ([] :: nat list)
   \<and> toLowerCase_greek [913, 931] = [945, 962]
   \<and> toLowerCase_greek [931] = [963]
   \<and> getSelectOptions toLowerCase_greek [Option [913, 931] (Num 1) None Absent] (Some [931]) = []"
  by (simp add: getSelectOptions_def visitOption_def filterMatch_def toLowerCase_greek_def
        lower_unit_def is_letter_def)

section \<open>Load more\<close>






section \<open>Duration range\<close>

text \<open>
  Claim C4. For every change of a duration-range condition to a new pair \<open>v\<close>: the change
  handler is invoked with \<open>v\<close> if and only if both endpoints transform to numbers and the
  minimum is less than or equal to the maximum; if both are numbers and the minimum exceeds
  the maximum, the error toast is shown and the change handler is not invoked; if neither
  endpoint is a number, the change handler is invoked with the empty list; if exactly one
  endpoint is a number, nothing is emitted and no message is shown.
\<close>

theorem duration_change:
  fixes transformDuration :: "'d option \<Rightarrow> ('n::linorder) jsnum option"
  shows
  "(let mn = transformDuration (opt_at v 0);
        mx = transformDuration (opt_at v 1);
        out = onDurationChange transformDuration k v
    in (v \<noteq> Some [] \<longrightarrow>
          ((\<exists>force. EmitChange k v force \<in> set out) \<longleftrightarrow> (\<exists>x y. mn = Some x \<and> mx = Some y \<and> js_le x y)))
       \<and> (\<forall>x y. mn = Some x \<and> mx = Some y \<and> js_gt x y \<longrightarrow> out = [MessageError ''msp:wrong duration''])
       \<and> (mn = None \<and> mx = None \<longrightarrow> out = [EmitChange k (Some []) False])
       \<and> ((mn = None) \<noteq> (mx = None) \<longrightarrow> out = []))"
proof -
  have gt_not_le: "\<not> js_le x y" if "js_gt x y" for x y :: "'n jsnum"
    using that by (cases x; cases y) auto
  show ?thesis
    by (auto simp: Let_def onDurationChange_def gt_not_le split: option.splits)
qed

theorem duration_change_witness:
  "(let td = (\<lambda>d. case d of Some (Some t, u) \<Rightarrow> Some (Finite (t * (if u = ''s'' then 1000 else (1::int)))) | _ \<Rightarrow> None)
    in onDurationChange td ''duration'' (Some [Some (Some 2, ''ms''), Some (Some 1, ''s'')])
         = [EmitChange ''duration'' (Some [Some (Some 2, ''ms''), Some (Some 1, ''s'')]) False]
       \<and> onDurationChange td ''duration'' (Some [Some (Some 2, ''s''), Some (Some 1, ''s'')])
         = [MessageError ''msp:wrong duration'']
       \<and> onDurationChange td ''duration'' (Some [Some (None, ''s''), Some (None, ''s'')])
         = [EmitChange ''duration'' (Some []) False]
       \<and> onDurationChange td ''duration'' (Some [Some (Some 2, ''s''), Some (None, ''s'')]) = [])"
  using
    duration_change [where v = "Some [Some (Some 2, ''ms''), Some (Some 1, ''s'')]"
      and transformDuration = "(\<lambda>d. case d of Some (Some t, u) \<Rightarrow> Some (Finite (t * (if u = ''s'' then 1000 else (1::int)))) | _ \<Rightarrow> None)" and k = "''duration''"]
    duration_change [where v = "Some [Some (Some 2, ''s''), Some (Some 1, ''s'')]"
      and transformDuration = "(\<lambda>d. case d of Some (Some t, u) \<Rightarrow> Some (Finite (t * (if u = ''s'' then 1000 else (1::int)))) | _ \<Rightarrow> None)" and k = "''duration''"]
    duration_change [where v = "Some [Some (None, ''s''), Some (None, ''s'')]"
      and transformDuration = "(\<lambda>d. case d of Some (Some t, u) \<Rightarrow> Some (Finite (t * (if u = ''s'' then 1000 else (1::int)))) | _ \<Rightarrow> None)" and k = "''duration''"]
    duration_change [where v = "Some [Some (Some 2, ''s''), Some (None, ''s'')]"
      and transformDuration = "(\<lambda>d. case d of Some (Some t, u) \<Rightarrow> Some (Finite (t * (if u = ''s'' then 1000 else (1::int)))) | _ \<Rightarrow> None)" and k = "''duration''"]
  by (simp add: Let_def opt_at_def onDurationChange_def)

section \<open>Quick add\<close>

lemma quick_step_tip:
  assumes "canNotBeEmpty t \<noteq> []" "alreadyExists t \<noteq> []"
    and "(tip st = []) = (qs_v st \<noteq> [] \<and> qs_v st \<notin> set (map label opts))"
  shows "(tip (quick_step t opts e st) = [])
           = (qs_v (quick_step t opts e st) \<noteq> [] \<and> qs_v (quick_step t opts e st) \<notin> set (map label opts))"
  using assms by (cases e) (auto simp: setV_def updateTip_def save_def)

lemma quick_fold_tip:
  assumes "canNotBeEmpty t \<noteq> []" "alreadyExists t \<noteq> []"
    and "(tip st = []) = (qs_v st \<noteq> [] \<and> qs_v st \<notin> set (map label opts))"
  shows "(tip (fold (quick_step t opts) evs st) = [])
           = (qs_v (fold (quick_step t opts) evs st) \<noteq> []
              \<and> qs_v (fold (quick_step t opts) evs st) \<notin> set (map label opts))"
  using assms(3)
proof (induction evs arbitrary: st)
  case Nil
  then show ?case by simp
next
  case (Cons e evs)
  have "(tip (quick_step t opts e st) = [])
           = (qs_v (quick_step t opts e st) \<noteq> [] \<and> qs_v (quick_step t opts e st) \<notin> set (map label opts))"
    using quick_step_tip [OF assms(1,2) Cons.prems] .
  from Cons.IH [OF this] show ?case by simp
qed

text \<open>
  Claim C10. In every state the quick-add control reaches, a click on \<open>Save\<close> invokes the
  save callback, with the entered text, exactly when that text is non-empty and differs from
  the label of every option; for an empty or duplicate text the callback is not invoked; in
  all cases the input field is empty after the click. The tooltip texts are non-empty.
\<close>

theorem quick_save:
  assumes "canNotBeEmpty t \<noteq> []" and "alreadyExists t \<noteq> []"
  shows "(let st = quick_run t opts evs
          in fst (save t opts st)
               = (if qs_v st \<noteq> [] \<and> qs_v st \<notin> set (map label opts) then [qs_v st] else [])
             \<and> qs_v (snd (save t opts st)) = [])"
proof -
  have "(tip (mountQuickSave t) = [])
          = (qs_v (mountQuickSave t) \<noteq> [] \<and> qs_v (mountQuickSave t) \<notin> set (map label opts))"
    using assms(1) by (simp add: mountQuickSave_def)
  from quick_fold_tip [OF assms this]
  have "(tip (quick_run t opts evs) = [])
          = (qs_v (quick_run t opts evs) \<noteq> [] \<and> qs_v (quick_run t opts evs) \<notin> set (map label opts))"
    by (simp add: quick_run_def)
  then show ?thesis
    by (auto simp: Let_def save_def setV_def updateTip_def)
qed

theorem quick_save_witness:
  "(let t = \<lparr> canNotBeEmpty = ''can not be empty'', alreadyExists = ''Name already exists'' \<rparr>;
        opts = [Option ''Mine'' (Str ''mine'') None Absent]
    in canNotBeEmpty t \<noteq> [] \<and> alreadyExists t \<noteq> []
       \<and> save t opts (quick_run t opts [Type ''Mine'', Type ''Urgent''])
           = ([''Urgent''], \<lparr> qs_v = [], tip = ''can not be empty'' \<rparr>)
       \<and> save t opts (quick_run t opts [Type ''Urgent'', Type ''Mine''])
           = ([], \<lparr> qs_v = [], tip = ''can not be empty'' \<rparr>)
       \<and> save t opts (quick_run t opts [Type ''Urgent'', ClickSave])
           = ([], \<lparr> qs_v = [], tip = ''can not be empty'' \<rparr>))"
  using
    quick_save [of "\<lparr> canNotBeEmpty = ''can not be empty'', alreadyExists = ''Name already exists'' \<rparr>"
      "[Option ''Mine'' (Str ''mine'') None Absent]" "[Type ''Mine'', Type ''Urgent'']"]
  by (simp add: Let_def quick_run_def save_def setV_def updateTip_def mountQuickSave_def)

section \<open>The iteration view\<close>

text \<open>
  Claim C5. Selecting a lifecycle tab other than the current one makes \<open>status\<close> that tab
  and triggers exactly one list fetch, whose argument has the state filter \<open>FILED\<close> for
  \<open>archived\<close> and \<open>UNFILED\<close> for \<open>unarchive\<close>, \<open>pageNo\<close> 1 and the number of the
  current project id; the fetch of the first render has the same form.
\<close>

theorem tab_fetch:
  "(v \<in> set tabValues \<and> v \<noteq> status vw \<longrightarrow>
      status (fst (onTabChange v vw)) = v
      \<and> snd (onTabChange v vw)
          = [Call (GetIterations
                     \<lparr> q_state = Some (if v = ''archived'' then ''FILED'' else ''UNFILED''),
                       q_pageNo = 1, q_pageSize = None,
                       projectID = toNumber vw (projectId vw) \<rparr>) []]
      \<and> exec_all ok resolves (snd (onTabChange v vw))
          = [GetIterations
               \<lparr> q_state = Some (if v = ''archived'' then ''FILED'' else ''UNFILED''),
                 q_pageNo = 1, q_pageSize = None,
                 projectID = toNumber vw (projectId vw) \<rparr>])
   \<and> (status vw \<in> set tabValues \<longrightarrow>
      exec_all ok resolves (mountView vw)
        = [GetIterations
             \<lparr> q_state = Some (if status vw = ''archived'' then ''FILED'' else ''UNFILED''),
               q_pageNo = 1, q_pageSize = None,
               projectID = toNumber vw (projectId vw) \<rparr>])"
  by (auto simp: onTabChange_def effectOnGetList_def mountView_def getList_def noOverrides_def
        Let_def tabValues_def iterationStateMap_def exec_all_def)

theorem tab_fetch_witness:
  "''archived'' \<in> set tabValues
   \<and> ''archived'' \<noteq> status ex_view
   \<and> status (fst (onTabChange ''archived'' ex_view)) = ''archived''
   \<and> snd (onTabChange ''archived'' ex_view)
       = [Call (GetIterations
                  \<lparr> q_state = Some ''FILED'', q_pageNo = 1, q_pageSize = None, projectID = 7 \<rparr>) []]
   \<and> status ex_view \<in> set tabValues
   \<and> exec_all True (\<lambda>c. True) (mountView ex_view)
       = [GetIterations
            \<lparr> q_state = Some ''UNFILED'', q_pageNo = 1, q_pageSize = None, projectID = 7 \<rparr>]"
  using tab_fetch [where v = "''archived''" and vw = ex_view and ok = True and resolves = "\<lambda>c. True"]
  by (simp add: tabValues_def)

text \<open>
  Claim C7. The row actions of an iteration record depend on its state only: a record with
  state \<open>FILED\<close> gets exactly one action, Unarchive, under the handle-filed permission; any
  other record gets exactly three: Edit and Delete under the operation permission and Archive
  under the handle-filed permission. No click deletes without the confirmation dialog: the
  click on Delete opens the dialog, and the delete-by-id effect runs once it is confirmed.
\<close>

theorem row_actions:
  "(it_state r = ''FILED'' \<longrightarrow>
      map (\<lambda>a. (a_title a, a_pass a)) (actions vw r) = [(''dop:Unarchive'', HandleFiledAuth)]
      \<and> map a_onClick (actions vw r) = [onFiled vw r ''UNFILED''])
   \<and> (it_state r \<noteq> ''FILED'' \<longrightarrow>
      map (\<lambda>a. (a_title a, a_pass a)) (actions vw r)
        = [(''Edit'', OperationAuth), (''Archive'', HandleFiledAuth), (''Delete'', OperationAuth)]
      \<and> map a_onClick (actions vw r)
        = [onEdit r, onFiled vw r ''FILED'', [ModalConfirm (onDelete vw (it_id r))]])
   \<and> ((it_state r = ''FILED'') = (it_state r' = ''FILED'') \<longrightarrow>
      map (\<lambda>a. (a_title a, a_pass a)) (actions vw r) = map (\<lambda>a. (a_title a, a_pass a)) (actions vw' r'))
   \<and> (\<forall>a \<in> set (actions vw r). \<forall>i. DeleteIteration i \<notin> set (exec_all False resolves (a_onClick a)))
   \<and> exec_all True resolves [ModalConfirm (onDelete vw (it_id r))]
        = DeleteIteration (it_id r)
          # (if resolves (DeleteIteration (it_id r))
             then [GetIterations \<lparr> q_state = iterationStateMap (status vw), q_pageNo = 1,
                                   q_pageSize = None, projectID = toNumber vw (projectId vw) \<rparr>]
             else [])"
  by (auto simp: actions_def onFiled_def onEdit_def onDelete_def exec_all_def getList_def pageOne_def)

theorem row_actions_witness:
  "it_state ex_sprint_filed = ''FILED''
   \<and> map (\<lambda>a. (a_title a, a_pass a)) (actions ex_view ex_sprint_filed)
       = [(''dop:Unarchive'', HandleFiledAuth)]
   \<and> it_state ex_sprint \<noteq> ''FILED''
   \<and> map (\<lambda>a. (a_title a, a_pass a)) (actions ex_view ex_sprint)
       = [(''Edit'', OperationAuth), (''Archive'', HandleFiledAuth), (''Delete'', OperationAuth)]
   \<and> exec_all False (\<lambda>c. True) (a_onClick (actions ex_view ex_sprint ! 2)) = []
   \<and> exec_all True (\<lambda>c. True) (a_onClick (actions ex_view ex_sprint ! 2))
       = [DeleteIteration 3,
          GetIterations \<lparr> q_state = Some ''UNFILED'', q_pageNo = 1, q_pageSize = None, projectID = 7 \<rparr>]"
  using row_actions [where r = ex_sprint_filed and vw = ex_view and r' = ex_sprint_filed and vw' = ex_view]
    row_actions [where r = ex_sprint and vw = ex_view and r' = ex_sprint and vw' = ex_view
      and resolves = "\<lambda>c. True"]
  by (simp add: actions_def iterationStateMap_def exec_all_def onDelete_def)

text \<open>
  Claim C8. An archive or unarchive action calls the update-by-id effect with the record's
  id, startedAt, finishedAt, title and content as they are and with the state set to the
  requested value; when the effect resolves, and only then, the list is fetched again at
  page 1. The Archive and Unarchive row actions are such calls, with \<open>FILED\<close> and
  \<open>UNFILED\<close>.
\<close>

theorem archive_update:
  "exec_all ok resolves (onFiled vw r operation)
     = EditIteration \<lparr> p_id = it_id r, p_startedAt = startedAt r, p_finishedAt = finishedAt r,
                       p_title = title r, p_content = content r, p_state = operation \<rparr>
       # (if resolves (EditIteration \<lparr> p_id = it_id r, p_startedAt = startedAt r,
                         p_finishedAt = finishedAt r, p_title = title r, p_content = content r,
                         p_state = operation \<rparr>)
          then [GetIterations \<lparr> q_state = iterationStateMap (status vw), q_pageNo = 1,
                                q_pageSize = None, projectID = toNumber vw (projectId vw) \<rparr>]
          else [])
   \<and> (\<forall>a \<in> set (actions vw r). a_title a \<in> {''Archive'', ''dop:Unarchive''} \<longrightarrow>
         a_onClick a = onFiled vw r (if a_title a = ''Archive'' then ''FILED'' else ''UNFILED''))"
  by (auto simp: actions_def onFiled_def exec_all_def getList_def pageOne_def)

theorem archive_update_witness:
  "exec_all True (\<lambda>c. True) (onFiled ex_view ex_sprint ''FILED'')
     = [EditIteration \<lparr> p_id = 3, p_startedAt = ''2021-01-01'', p_finishedAt = ''2021-01-14'',
                        p_title = ''Sprint 1'', p_content = ''ship'', p_state = ''FILED'' \<rparr>,
        GetIterations \<lparr> q_state = Some ''UNFILED'', q_pageNo = 1, q_pageSize = None, projectID = 7 \<rparr>]
   \<and> actions ex_view ex_sprint ! 1 \<in> set (actions ex_view ex_sprint)
   \<and> a_title (actions ex_view ex_sprint ! 1) = ''Archive''
   \<and> a_onClick (actions ex_view ex_sprint ! 1) = onFiled ex_view ex_sprint ''FILED''"
  using archive_update [where r = ex_sprint and vw = ex_view and operation = "''FILED''"
      and ok = True and resolves = "\<lambda>c. True"]
  by (simp add: actions_def iterationStateMap_def)

section \<open>Change notification\<close>

lemma bar_step_inv:
  assumes "valueMapRef b = Some (valueMap b)" and "debouncedWait b = delay p"
  shows "valueMapRef (bar_step p e b) = Some (valueMap (bar_step p e b))
         \<and> debouncedWait (bar_step p e b) = delay p"
  using assms
  by (cases e; cases "snd e")
     (auto simp: bar_step_def renderEffects_def handelItemChange_def Let_def)

lemma bar_run_inv:
  "valueMapRef (bar_run p evs) = Some (valueMap (bar_run p evs))
   \<and> debouncedWait (bar_run p evs) = delay p"
proof -
  have "valueMapRef (fold (bar_step p) evs b) = Some (valueMap (fold (bar_step p) evs b))
        \<and> debouncedWait (fold (bar_step p) evs b) = delay p"
    if "valueMapRef b = Some (valueMap b)" and "debouncedWait b = delay p" for b
    using that
  proof (induction evs arbitrary: b)
    case Nil
    then show ?case by simp
  next
    case (Cons e evs)
    from bar_step_inv [OF Cons.prems] Cons.IH show ?case by simp
  qed
  moreover have "valueMapRef (mountBar p) = Some (valueMap (mountBar p))"
    and "debouncedWait (mountBar p) = delay p"
    by (simp_all add: mountBar_def renderEffects_def)
  ultimately show ?thesis by (simp add: bar_run_def)
qed

text \<open>
  Claim C2. In every state the bar reaches, a change \<open>{ key, value }\<close> emitted by a filter
  item updates the value map at that key and notifies the upstream \<open>onChange\<close> once, with
  the updated value map and the key: through the debounced instance, whose wait is the
  bar's \<open>delay\<close>, when \<open>delay\<close> is non-zero and the change does not carry \<open>forceChange\<close>,
  and directly when \<open>delay\<close> is zero or \<open>forceChange\<close> is set.
\<close>

theorem item_change_notifies:
  "(let b = bar_run p evs;
        merged = (valueMap b)(k \<mapsto> v)
    in handelItemChange p b (ItemChange k v) forceChange
         = (b\<lparr> valueMap := merged \<rparr>,
            [if delay p \<noteq> 0 \<and> \<not> forceChange
             then Debounced (delay p) merged (Scalar (Str k))
             else Immediate merged (Scalar (Str k))]))"
  using bar_run_inv [of p evs]
  by (simp add: Let_def handelItemChange_def refMap_def)

theorem item_change_notifies_witness:
  "snd (handelItemChange ex_props (bar_run ex_props []) (ItemChange ''status'' (Arr [Str ''open''])) False)
     = [Debounced 300 ((valueMap (bar_run ex_props []))(''status'' \<mapsto> Arr [Str ''open'']))
          (Scalar (Str ''status''))]
   \<and> snd (handelItemChange ex_props (bar_run ex_props []) (ItemChange ''title'' (Scalar (Str ''sprint''))) True)
     = [Immediate ((valueMap (bar_run ex_props []))(''title'' \<mapsto> Scalar (Str ''sprint'')))
          (Scalar (Str ''title''))]"
  using
    item_change_notifies [where p = ex_props and evs = "[]" and k = "''status''"
      and v = "Arr [Str ''open'']" and forceChange = False]
    item_change_notifies [where p = ex_props and evs = "[]" and k = "''title''"
      and v = "Scalar (Str ''sprint'')" and forceChange = True]
  by (simp add: Let_def)

section \<open>Required conditions\<close>

lemma keptOnClear_required:
  "keptOnClear (map_option (\<lambda>c. c\<lparr> required := flag c \<rparr>) cur) = keptOnClear cur"
  by (cases cur) (simp_all add: keptOnClear_def)

lemma array_get_map: "array_get (map f conds) k = map_option f (array_get conds k)"
proof -
  have "find P [0..<length conds] = Some i \<Longrightarrow> i < length conds" for P i
    by (auto simp: find_Some_iff)
  then show ?thesis
    by (auto simp: array_get_def split: option.splits)
qed

lemma clearedValueMap_required:
  "clearedValueMap p (b\<lparr> conditions := map (\<lambda>c. c\<lparr> required := flag c \<rparr>) (conditions b) \<rparr>)
     = clearedValueMap p b"
proof (cases "arrayLikeLength (valueMap b)")
  case None
  then show ?thesis
    unfolding clearedValueMap_def
    by (simp add: array_get_map keptOnClear_required cong: option.case_cong)
next
  case (Some n)
  then show ?thesis
    unfolding clearedValueMap_def
    by (intro ext) (simp add: keptOnClear_def split: option.splits)
qed

lemma array_get_in_set: "array_get conds k = Some c \<Longrightarrow> c \<in> set conds"
  by (auto simp: array_get_def find_Some_iff split: option.splits)

lemma not_kept_lookup:
  "\<forall>c \<in> set conds. \<not> keptOnClear (Some c) \<Longrightarrow> \<not> keptOnClear (array_get conds k)"
  by (cases "array_get conds k") (auto simp: keptOnClear_def dest: array_get_in_set)

text \<open>
  Claim C1, as the code has it. The dropdown of a required select condition never clears its
  value: in single mode a click on the selected option changes nothing, in multiple mode
  a click that would deselect the last selected option changes nothing, after a click on
  any option a value that was neither \<open>undefined\<close> nor the empty array is still neither,
  and the \<open>Clear selected\<close> link of the condition is not rendered. The global
  clear-selected action does not look at the \<open>required\<close> flag: its outcome is the same
  whatever the flags are. When the value map has no numeric \<open>length\<close> entry and none of
  the conditions of the bar is fixed (or an input whose \<open>fixed\<close> is not \<open>false\<close>), it
  resets every entry of the value map, required or not, to its entry in \<open>initValue\<close>, or
  to \<open>undefined\<close>.
\<close>

theorem required_guards:
  "(required c \<and> isSingleMode c \<and> val curOpt \<in> set (selected (itemValue b c)) \<longrightarrow>
      dispatch_all p (key c) (onClickOptItem c (itemValue b c) curOpt) b = (b, []))
   \<and> (required c \<and> \<not> isSingleMode c \<and> selected (itemValue b c) \<noteq> []
       \<and> (\<forall>x \<in> set (selected (itemValue b c)). x = val curOpt) \<longrightarrow>
      dispatch_all p (key c) (onClickOptItem c (itemValue b c) curOpt) b = (b, []))
   \<and> (required c \<and> itemValue b c \<noteq> Undefined \<and> itemValue b c \<noteq> Arr [] \<longrightarrow>
      itemValue (fst (dispatch_all p (key c) (onClickOptItem c (itemValue b c) anyOpt) b)) c \<noteq> Undefined
      \<and> itemValue (fst (dispatch_all p (key c) (onClickOptItem c (itemValue b c) anyOpt) b)) c \<noteq> Arr [])
   \<and> (required c \<longrightarrow> clearSelectedLink c = None)
   \<and> map_sum id (\<lambda>res. (valueMap (fst res), snd res))
        (handleClearSelected p
           (b\<lparr> conditions := map (\<lambda>c. c\<lparr> required := flag c \<rparr>) (conditions b) \<rparr>))
      = map_sum id (\<lambda>res. (valueMap (fst res), snd res)) (handleClearSelected p b)
   \<and> (arrayLikeLength (valueMap b) = None \<and> valueMap b k = Some v
       \<and> (\<forall>c \<in> set (conditions b). \<not> keptOnClear (Some c)) \<longrightarrow>
      \<not> isl (handleClearSelected p b)
      \<and> valueMap (fst (projr (handleClearSelected p b))) k = Some (initValueAt p k))"
proof -
  have single: "required c \<and> isSingleMode c \<and> val curOpt \<in> set (selected (itemValue b c)) \<longrightarrow>
      dispatch_all p (key c) (onClickOptItem c (itemValue b c) curOpt) b = (b, [])"
    by (simp add: onClickOptItem_def)
  have multi: "required c \<and> \<not> isSingleMode c \<and> selected (itemValue b c) \<noteq> []
       \<and> (\<forall>x \<in> set (selected (itemValue b c)). x = val curOpt) \<longrightarrow>
      dispatch_all p (key c) (onClickOptItem c (itemValue b c) curOpt) b = (b, [])"
  proof (intro impI, elim conjE)
    assume r: "required c" and m: "\<not> isSingleMode c" and ne: "selected (itemValue b c) \<noteq> []"
      and all: "\<forall>x \<in> set (selected (itemValue b c)). x = val curOpt"
    from ne all have mem: "val curOpt \<in> set (selected (itemValue b c))"
      by (cases "selected (itemValue b c)") auto
    from all have "filter (\<lambda>x. x \<noteq> val curOpt) (selected (itemValue b c)) = []"
      by (simp add: filter_empty_conv)
    with r m mem show "dispatch_all p (key c) (onClickOptItem c (itemValue b c) curOpt) b = (b, [])"
      by (simp add: onClickOptItem_def)
  qed
  have never: "required c \<and> itemValue b c \<noteq> Undefined \<and> itemValue b c \<noteq> Arr [] \<longrightarrow>
      itemValue (fst (dispatch_all p (key c) (onClickOptItem c (itemValue b c) anyOpt) b)) c \<noteq> Undefined
      \<and> itemValue (fst (dispatch_all p (key c) (onClickOptItem c (itemValue b c) anyOpt) b)) c \<noteq> Arr []"
    by (simp add: onClickOptItem_def handelItemChange_def itemValue_def Let_def)
  have link: "required c \<longrightarrow> clearSelectedLink c = None"
    by (simp add: clearSelectedLink_def)
  have indep: "map_sum id (\<lambda>res. (valueMap (fst res), snd res))
        (handleClearSelected p
           (b\<lparr> conditions := map (\<lambda>c. c\<lparr> required := flag c \<rparr>) (conditions b) \<rparr>))
      = map_sum id (\<lambda>res. (valueMap (fst res), snd res)) (handleClearSelected p b)"
    using clearedValueMap_required [where p = p and b = b and flag = flag]
    by (simp add: handleClearSelected_def handelItemChange_def Let_def refMap_def
          split: option.splits)
  have reset: "arrayLikeLength (valueMap b) = None \<and> valueMap b k = Some v
       \<and> (\<forall>c \<in> set (conditions b). \<not> keptOnClear (Some c)) \<longrightarrow>
      \<not> isl (handleClearSelected p b)
      \<and> valueMap (fst (projr (handleClearSelected p b))) k = Some (initValueAt p k)"
    using not_kept_lookup [of "conditions b" k]
    by (auto simp: handleClearSelected_def handelItemChange_def Let_def clearedValueMap_def
          map_add_def)
  from single multi never link indep reset show ?thesis by blast
qed

theorem required_guards_witness:
  "required ex_status_single \<and> isSingleMode ex_status_single
   \<and> selected (itemValue ex_bar_single ex_status_single) = [val ex_open]
   \<and> dispatch_all ex_props_single (key ex_status_single)
        (onClickOptItem ex_status_single (itemValue ex_bar_single ex_status_single) ex_open)
        ex_bar_single = (ex_bar_single, [])
   \<and> required ex_status \<and> \<not> isSingleMode ex_status
   \<and> selected (itemValue ex_bar ex_status) = [val ex_open]
   \<and> dispatch_all ex_props (key ex_status)
        (onClickOptItem ex_status (itemValue ex_bar ex_status) ex_open) ex_bar = (ex_bar, [])
   \<and> itemValue ex_bar ex_status = Arr [Str ''open'']
   \<and> itemValue (fst (dispatch_all ex_props (key ex_status)
                        (onClickOptItem ex_status (itemValue ex_bar ex_status) ex_closed) ex_bar))
        ex_status = Arr [Str ''open'', Str ''closed'']
   \<and> clearSelectedLink ex_status = None
   \<and> arrayLikeLength (valueMap ex_bar) = None
   \<and> valueMap ex_bar ''status'' = Some (Arr [Str ''open''])
   \<and> conditions ex_bar = [ex_status] \<and> \<not> keptOnClear (Some ex_status)
   \<and> \<not> isl (handleClearSelected ex_props ex_bar)
   \<and> valueMap (fst (projr (handleClearSelected ex_props ex_bar))) ''status''
       = Some (initValueAt ex_props ''status'')"
proof -
  have s1: "selected (itemValue ex_bar_single ex_status_single) = [val ex_open]"
    by (simp add: selected_def itemValue_def bar_run_def bar_step_def mountBar_def
          renderEffects_def handelItemChange_def)
  have m1: "required ex_status_single \<and> isSingleMode ex_status_single"
    by (simp add: isSingleMode_def)
  have s2: "selected (itemValue ex_bar ex_status) = [val ex_open]"
    by (simp add: selected_def itemValue_def bar_run_def bar_step_def mountBar_def
          renderEffects_def handelItemChange_def)
  have m2: "required ex_status \<and> \<not> isSingleMode ex_status"
    by (simp add: isSingleMode_def)
  have i2: "itemValue ex_bar ex_status = Arr [Str ''open'']"
    by (simp add: itemValue_def bar_run_def bar_step_def mountBar_def renderEffects_def
          handelItemChange_def)
  have n2: "itemValue (fst (dispatch_all ex_props (key ex_status)
                        (onClickOptItem ex_status (itemValue ex_bar ex_status) ex_closed) ex_bar))
        ex_status = Arr [Str ''open'', Str ''closed'']"
    by (simp add: onClickOptItem_def isSingleMode_def selected_def handelItemChange_def
          itemValue_def bar_run_def bar_step_def mountBar_def renderEffects_def)
  have v3: "arrayLikeLength (valueMap ex_bar) = None
      \<and> valueMap ex_bar ''status'' = Some (Arr [Str ''open''])"
    by (simp add: arrayLikeLength_def bar_run_def bar_step_def mountBar_def renderEffects_def
          handelItemChange_def)
  have k3: "conditions ex_bar = [ex_status] \<and> \<not> keptOnClear (Some ex_status)"
    by (simp add: keptOnClear_def bar_run_def bar_step_def mountBar_def renderEffects_def
          handelItemChange_def)
  note g1 = required_guards [where c = ex_status_single and b = ex_bar_single and p = ex_props_single
      and curOpt = ex_open]
  note g2 = required_guards [where c = ex_status and b = ex_bar and p = ex_props
      and curOpt = ex_open and anyOpt = ex_closed and k = "''status''" and v = "Arr [Str ''open'']"]
  from g1 m1 s1 have c1: "dispatch_all ex_props_single (key ex_status_single)
        (onClickOptItem ex_status_single (itemValue ex_bar_single ex_status_single) ex_open)
        ex_bar_single = (ex_bar_single, [])"
    by simp
  from g2 m2 s2 have c2: "dispatch_all ex_props (key ex_status)
        (onClickOptItem ex_status (itemValue ex_bar ex_status) ex_open) ex_bar = (ex_bar, [])"
    by simp
  from g2 m2 have c3: "clearSelectedLink ex_status = None"
    by blast
  from k3 have k3': "\<forall>c \<in> set (conditions ex_bar). \<not> keptOnClear (Some c)"
    by simp
  from g2 v3 k3' have c4: "\<not> isl (handleClearSelected ex_props ex_bar)
      \<and> valueMap (fst (projr (handleClearSelected ex_props ex_bar))) ''status''
       = Some (initValueAt ex_props ''status'')"
    by blast
  from m1 s1 c1 m2 s2 c2 i2 n2 c3 v3 k3 c4 show ?thesis by blast
qed

text \<open>
  A required condition whose value is \<open>[open]\<close>: the global clear-selected action resets
  the value to \<open>undefined\<close>.
\<close>

theorem required_cleared_counterexample:
  "required ex_status
   \<and> ex_status \<in> set (conditions ex_bar)
   \<and> valueMap ex_bar ''status'' = Some (Arr [Str ''open''])
   \<and> \<not> isl (handleClearSelected ex_props ex_bar)
   \<and> valueMap (fst (projr (handleClearSelected ex_props ex_bar))) ''status'' = Some Undefined"
  by (simp add: bar_run_def bar_step_def mountBar_def renderEffects_def handelItemChange_def
        handleClearSelected_def arrayLikeLength_def clearedValueMap_def array_get_def keptOnClear_def
        initValueAt_def refMap_def show_nat.simps map_add_def)

section \<open>The progress percentage\<close>

subsection \<open>The rounding error of a quotient\<close>

lemma blen_pos: "0 < n \<Longrightarrow> blen n = Suc (blen (n div 2))"
  by (subst blen.simps) simp

lemma blen_bounds: "0 < n \<Longrightarrow> 2 ^ (blen n - 1) \<le> n \<and> n < 2 ^ blen n"
proof (induction n rule: blen.induct)
  case (1 n)
  show ?case
  proof (cases "n div 2 = 0")
    case True
    with "1.prems" have "n = 1" by (simp add: div_eq_0_iff)
    then show ?thesis by (simp add: blen.simps)
  next
    case False
    then have pos: "0 < n div 2" by simp
    with "1.IH" "1.prems" have ih: "2 ^ (blen (n div 2) - 1) \<le> n div 2 \<and> n div 2 < 2 ^ blen (n div 2)"
      by simp
    have l: "blen (n div 2) = Suc (blen (n div 2) - 1)"
      using pos by (simp add: blen_pos)
    have b: "blen n = Suc (blen (n div 2))"
      using "1.prems" by (rule blen_pos)
    have "(2::nat) ^ blen (n div 2) = 2 * 2 ^ (blen (n div 2) - 1)"
      by (subst l) simp
    moreover have "2 * (n div 2) \<le> n" and "n < 2 * (n div 2) + 2"
      by presburger+
    ultimately have "2 ^ blen (n div 2) \<le> n" and "n < 2 * 2 ^ blen (n div 2)"
      using ih by linarith+
    with b show ?thesis by simp
  qed
qed

lemma rdiv_bounds:
  assumes "0 < b"
  shows "2 * (b * rdiv a b) \<le> 2 * a + b \<and> 2 * a \<le> 2 * (b * rdiv a b) + b"
proof -
  define q where "q = a div b"
  define r where "r = a mod b"
  have a: "a = b * q + r" by (simp add: q_def r_def)
  have r: "r < b" using assms by (simp add: r_def)
  have "rdiv a b = (if 2 * r < b then q else if b < 2 * r then q + 1 else if even q then q else q + 1)"
    by (simp add: rdiv_def q_def r_def Let_def)
  then consider "rdiv a b = q" "2 * r \<le> b" | "rdiv a b = q + 1" "b \<le> 2 * r"
    by (auto split: if_splits)
  then show ?thesis
  proof cases
    case 1
    then show ?thesis using a by simp
  next
    case 2
    then show ?thesis using a r by (simp add: algebra_simps)
  qed
qed

lemma fl_ratio_scaled:
  assumes "0 < a" and "0 < b"
  shows "2 ^ 52 * (b * 2 ^ nat (- snd (fl_ratio a b))) \<le> a * 2 ^ nat (snd (fl_ratio a b))"
proof -
  define la where "la = blen a"
  define lb where "lb = blen b"
  define k0 where "k0 = 53 + int lb - int la"
  have a_lo: "2 ^ (la - 1) \<le> a" and la: "0 < la"
    using blen_bounds [OF assms(1)] blen_pos [OF assms(1)] by (simp_all add: la_def)
  have b_hi: "b < 2 ^ lb"
    using blen_bounds [OF assms(2)] by (simp add: lb_def)
  show ?thesis
  proof (cases "2 ^ 53 * (b * 2 ^ nat (- k0)) \<le> a * 2 ^ nat k0")
    case True
    then have k: "snd (fl_ratio a b) = k0 - 1"
      using assms(1) by (simp add: fl_ratio_def Let_def k0_def la_def lb_def)
    show ?thesis
    proof (cases "1 \<le> k0")
      case True
      then have "nat (- k0) = 0" and "nat (- (k0 - 1)) = 0" and "nat k0 = Suc (nat (k0 - 1))"
        by simp_all
      with \<open>2 ^ 53 * (b * 2 ^ nat (- k0)) \<le> a * 2 ^ nat k0\<close> show ?thesis
        by (simp add: k)
    next
      case False
      then have "nat k0 = 0" and "nat (k0 - 1) = 0" and "nat (- (k0 - 1)) = Suc (nat (- k0))"
        by simp_all
      with \<open>2 ^ 53 * (b * 2 ^ nat (- k0)) \<le> a * 2 ^ nat k0\<close> show ?thesis
        by (simp add: k)
    qed
  next
    case False
    then have k: "snd (fl_ratio a b) = k0"
      using assms(1) by (simp add: fl_ratio_def Let_def k0_def la_def lb_def)
    show ?thesis
    proof (cases "0 \<le> k0")
      case True
      then have n0: "nat (- k0) = 0" by simp
      from True la have e: "la - 1 + nat k0 = 52 + lb"
        by (simp add: k0_def)
      have "2 ^ 52 * b \<le> (2::nat) ^ 52 * 2 ^ lb"
        using b_hi by simp
      also have "\<dots> = 2 ^ (la - 1) * 2 ^ nat k0"
        by (simp only: power_add [symmetric] e)
      also have "\<dots> \<le> a * 2 ^ nat k0"
        using a_lo by simp
      finally show ?thesis by (simp add: k n0)
    next
      case False
      then have n0: "nat k0 = 0" by simp
      from False la have e: "52 + (lb + nat (- k0)) = la - 1"
        by (simp add: k0_def)
      have "2 ^ 52 * (b * 2 ^ nat (- k0)) \<le> (2::nat) ^ 52 * (2 ^ lb * 2 ^ nat (- k0))"
        using b_hi by simp
      also have "\<dots> = 2 ^ (la - 1)"
        by (simp only: power_add [symmetric] e)
      also have "\<dots> \<le> a" by (rule a_lo)
      finally show ?thesis by (simp add: k n0)
    qed
  qed
qed

lemma fl_ratio_fst:
  "0 < a \<Longrightarrow> fst (fl_ratio a b)
     = rdiv (a * 2 ^ nat (snd (fl_ratio a b))) (b * 2 ^ nat (- snd (fl_ratio a b)))"
  by (simp add: fl_ratio_def Let_def)

lemma fl_ratio_error:
  assumes "0 < a" and "0 < b"
  shows "\<bar>dval (fl_ratio a b) - of_nat a / of_nat b\<bar> \<le> (of_nat a / of_nat b) / 2 ^ 53"
proof -
  define k where "k = snd (fl_ratio a b)"
  define m where "m = fst (fl_ratio a b)"
  define S :: nat where "S = 2 ^ nat k"
  define T :: nat where "T = 2 ^ nat (- k)"
  define N where "N = a * S"
  define D where "D = b * T"
  have S: "0 < S" and T: "0 < T" by (simp_all add: S_def T_def)
  have D: "0 < D" using assms(2) T by (simp add: D_def)
  have m: "m = rdiv N D"
    using fl_ratio_fst [OF assms(1), of b] by (simp add: m_def N_def D_def S_def T_def k_def)
  have lo: "2 ^ 52 * D \<le> N"
    using fl_ratio_scaled [OF assms] by (simp add: N_def D_def S_def T_def k_def)
  from rdiv_bounds [OF D, of N] m
  have rb: "2 * (D * m) \<le> 2 * N + D" "2 * N \<le> 2 * (D * m) + D" by simp_all
  have r1: "2 * (of_nat D * of_nat m) \<le> 2 * (of_nat N :: rat) + of_nat D"
    using rb(1) by (metis of_nat_add of_nat_le_iff of_nat_mult of_nat_numeral)
  have r2: "2 * (of_nat N :: rat) \<le> 2 * (of_nat D * of_nat m) + of_nat D"
    using rb(2) by (metis of_nat_add of_nat_le_iff of_nat_mult of_nat_numeral)
  have r3: "2 ^ 52 * (of_nat D :: rat) \<le> of_nat N"
    using lo by (metis of_nat_le_iff of_nat_mult of_nat_numeral of_nat_power)
  have e1: "\<bar>of_nat m * of_nat D - (of_nat N :: rat)\<bar> \<le> of_nat N / 2 ^ 53"
  proof -
    define X :: rat where "X = of_nat m * of_nat D"
    define Y :: rat where "Y = of_nat N"
    define Z :: rat where "Z = of_nat D"
    have "2 * X \<le> 2 * Y + Z" and "2 * Y \<le> 2 * X + Z" and "4503599627370496 * Z \<le> Y"
      using r1 r2 r3 by (simp_all add: X_def Y_def Z_def mult.commute)
    then have "\<bar>X - Y\<bar> \<le> Y / 9007199254740992"
      by linarith
    then show ?thesis by (simp add: X_def Y_def)
  qed
  have pos: "(0::rat) < of_nat S * of_nat b"
    using S assms(2) by simp
  have d: "dval (fl_ratio a b) = of_nat m * of_nat T / of_nat S"
    by (simp add: dval_def m_def T_def S_def k_def)
  have "dval (fl_ratio a b) - of_nat a / of_nat b
          = (of_nat m * of_nat D - (of_nat N :: rat)) / (of_nat S * of_nat b)"
    using S assms(2) by (simp add: d N_def D_def field_simps)
  then have "\<bar>dval (fl_ratio a b) - of_nat a / of_nat b\<bar>
          = \<bar>of_nat m * of_nat D - (of_nat N :: rat)\<bar> / (of_nat S * of_nat b)"
    using pos by (simp add: abs_divide del: of_nat_mult)
  also have "\<dots> \<le> (of_nat N / 2 ^ 53) / (of_nat S * of_nat b)"
    using e1 pos by (intro divide_right_mono) simp_all
  also have "\<dots> = (of_nat a / of_nat b) / 2 ^ 53"
    using S assms(2) by (simp add: N_def field_simps)
  finally show ?thesis .
qed

subsection \<open>The percentage and its tenths\<close>

lemma toFixed1_bounds:
  "of_nat (toFixed1 x) \<le> 10 * dval x + 1 / 2 \<and> 10 * dval x + 1 / 2 < of_nat (toFixed1 x) + 1"
proof -
  define N where "N = fst x * 2 ^ nat (- snd x)"
  define S :: nat where "S = 2 ^ nat (snd x)"
  define n where "n = (2 * (10 * N) + S) div (2 * S)"
  have S: "0 < S" by (simp add: S_def)
  have n: "toFixed1 x = n" by (simp add: toFixed1_def n_def N_def S_def)
  have "n * (2 * S) \<le> 2 * (10 * N) + S"
    unfolding n_def by (rule div_times_less_eq_dividend)
  then have "of_nat (n * (2 * S)) \<le> (of_nat (2 * (10 * N) + S) :: rat)"
    by (rule of_nat_mono)
  then have lo: "of_nat n * (2 * of_nat S) \<le> 2 * (10 * of_nat N) + (of_nat S :: rat)"
    by simp
  have "2 * (10 * N) + S < 2 * S + n * (2 * S)"
    unfolding n_def using S by (intro dividend_less_div_times) simp
  then have "(of_nat (2 * (10 * N) + S) :: rat) < of_nat (2 * S + n * (2 * S))"
    by (simp only: of_nat_less_iff)
  then have hi: "2 * (10 * of_nat N) + (of_nat S :: rat) < (of_nat n + 1) * (2 * of_nat S)"
    by (simp add: algebra_simps)
  have d: "dval x = of_nat N / of_nat S"
    by (simp add: dval_def N_def S_def)
  have Spos: "(0::rat) < of_nat S" using S by simp
  from lo Spos have "of_nat n \<le> 10 * dval x + 1 / 2"
    by (simp add: d field_simps)
  moreover from hi Spos have "10 * dval x + 1 / 2 < of_nat n + 1"
    by (simp add: d field_simps)
  ultimately show ?thesis by (simp add: n)
qed

lemma times100_ratio:
  "of_nat (100 * (fst x * 2 ^ nat (- snd x))) / (of_nat (2 ^ nat (snd x)) :: rat) = 100 * dval x"
  by (simp add: dval_def)

lemma percent_error:
  assumes "0 < d" and "d \<le> t"
  shows "\<bar>dval (js_times100 (js_divide d t)) - 100 * (of_nat d / of_nat t)\<bar> \<le> 1 / 2 ^ 44"
proof -
  define q :: rat where "q = of_nat d / of_nat t"
  define x1 where "x1 = dval (js_divide d t)"
  define x where "x = dval (js_times100 (js_divide d t))"
  have t: "0 < t" using assms by simp
  have q: "0 < q" "q \<le> 1" using assms by (simp_all add: q_def)
  have e1: "\<bar>x1 - q\<bar> \<le> q / 9007199254740992"
    using fl_ratio_error [OF assms(1) t] by (simp add: x1_def q_def js_divide_def)
  with q have x1pos: "0 < x1" by linarith
  have a2: "0 < 100 * (fst (js_divide d t) * 2 ^ nat (- snd (js_divide d t)))"
  proof (rule ccontr)
    assume "\<not> ?thesis"
    then have "fst (js_divide d t) * 2 ^ nat (- snd (js_divide d t)) = 0" by simp
    then have "x1 = 0" by (simp add: x1_def dval_def)
    with x1pos show False by simp
  qed
  have b2: "0 < (2::nat) ^ nat (snd (js_divide d t))" by simp
  have "\<bar>dval (fl_ratio (100 * (fst (js_divide d t) * 2 ^ nat (- snd (js_divide d t))))
                (2 ^ nat (snd (js_divide d t))))
         - of_nat (100 * (fst (js_divide d t) * 2 ^ nat (- snd (js_divide d t))))
             / of_nat (2 ^ nat (snd (js_divide d t)))\<bar>
        \<le> (of_nat (100 * (fst (js_divide d t) * 2 ^ nat (- snd (js_divide d t))))
             / of_nat (2 ^ nat (snd (js_divide d t)))) / 2 ^ 53"
    by (rule fl_ratio_error [OF a2 b2])
  then have "\<bar>x - 100 * x1\<bar> \<le> (100 * x1) / 2 ^ 53"
    by (simp only: times100_ratio x_def x1_def js_times100_def)
  then have e2: "\<bar>x - 100 * x1\<bar> \<le> (100 * x1) / 9007199254740992"
    by simp
  from e1 e2 q have "\<bar>x - 100 * q\<bar> \<le> 1 / 17592186044416"
    by linarith
  then show ?thesis by (simp add: x_def q_def)
qed

lemma percent_zero:
  "toFixed1 (js_times100 (0, 0)) = 0" "js_divide 0 t = (0, 0)"
  by (simp_all add: toFixed1_def js_times100_def js_divide_def fl_ratio_def)

lemma percent_error0:
  assumes "0 < t" and "d \<le> t"
  shows "\<bar>dval (js_times100 (js_divide d t)) - 100 * (of_nat d / of_nat t)\<bar> \<le> 1 / 2 ^ 44"
proof (cases "d = 0")
  case True
  then show ?thesis
    by (simp add: js_times100_def js_divide_def fl_ratio_def dval_def)
next
  case False
  then show ?thesis using percent_error [of d t] assms by simp
qed

lemma percent_close:
  assumes "0 < t" and "d \<le> t"
  shows "\<bar>of_nat (toFixed1 (js_times100 (js_divide d t))) / 10 - 100 * of_nat d / of_nat t\<bar>
           \<le> (1 / 20 + 1 / 2 ^ 44 :: rat)"
proof -
  define x where "x = dval (js_times100 (js_divide d t))"
  define n :: rat where "n = of_nat (toFixed1 (js_times100 (js_divide d t)))"
  define e :: rat where "e = of_nat d / of_nat t"
  have "\<bar>x - 100 * e\<bar> \<le> 1 / 2 ^ 44"
    unfolding x_def e_def by (rule percent_error0 [OF assms])
  then have a: "\<bar>x - 100 * e\<bar> \<le> 1 / 17592186044416" by simp
  have b: "n \<le> 10 * x + 1 / 2" "10 * x + 1 / 2 < n + 1"
    using toFixed1_bounds [of "js_times100 (js_divide d t)"] by (simp_all add: x_def n_def)
  from a b have "\<bar>n / 10 - 100 * e\<bar> \<le> 1 / 20 + 1 / 17592186044416" by linarith
  then show ?thesis by (simp add: n_def e_def)
qed

lemma percent_rounded:
  assumes "0 < t" and "d \<le> t" and "t \<le> 2 ^ 39" and "2 * ((1000 * d) mod t) \<noteq> t"
  shows "int (toFixed1 (js_times100 (js_divide d t))) = spec_percentTenths d t"
proof -
  define x where "x = dval (js_times100 (js_divide d t))"
  define n where "n = toFixed1 (js_times100 (js_divide d t))"
  define q where "q = (1000 * d) div t"
  define r where "r = (1000 * d) mod t"
  define T :: rat where "T = of_nat t"
  define \<rho> :: rat where "\<rho> = of_nat r / T"
  define E :: rat where "E = 1000 * of_nat d / of_nat t"
  have T: "0 < T" "T \<le> 549755813888"
    using assms(1) apply (simp add: T_def)
    using assms(3) of_nat_mono [of t "2 ^ 39", where 'a = rat] by (simp add: T_def)
  have "1000 * d = q * t + r" by (simp add: q_def r_def)
  then have "(of_nat (1000 * d) :: rat) = of_nat (q * t + r)" by simp
  then have "1000 * (of_nat d :: rat) = of_nat q * T + of_nat r" by (simp add: T_def)
  then have E: "E = of_nat q + \<rho>"
    using T(1) by (simp add: E_def \<rho>_def T_def [symmetric] field_simps)
  have inv: "1 / 549755813888 \<le> 1 / T"
    using T by (simp add: field_simps)
  define e :: rat where "e = of_nat d / of_nat t"
  have Ee: "E = 1000 * e" by (simp add: E_def e_def)
  have "\<bar>x - 100 * e\<bar> \<le> 1 / 2 ^ 44"
    unfolding x_def e_def by (rule percent_error0 [OF assms(1,2)])
  then have "\<bar>x - 100 * e\<bar> \<le> 1 / 17592186044416" by simp
  with Ee have a: "\<bar>10 * x - E\<bar> \<le> 10 / 17592186044416" by linarith
  have b: "of_nat n \<le> 10 * x + 1 / 2" "10 * x + 1 / 2 < of_nat n + 1"
    using toFixed1_bounds [of "js_times100 (js_divide d t)"] by (simp_all add: x_def n_def)
  have rt: "r < t" using assms(1) by (simp add: r_def)
  have s: "spec_percentTenths d t = \<lfloor>E + 1 / 2\<rfloor>"
    using assms(1) by (simp add: spec_percentTenths_def E_def)
  consider "2 * r + 1 \<le> t" | "t + 1 \<le> 2 * r"
    using assms(4) by (fold r_def) linarith
  then show ?thesis
  proof cases
    case 1
    then have "(of_nat (2 * r + 1) :: rat) \<le> of_nat t" by (rule of_nat_mono)
    then have "2 * of_nat r + 1 \<le> T" by (simp add: T_def)
    then have "2 * \<rho> + 1 / T \<le> 1" using T(1) by (simp add: \<rho>_def field_simps)
    moreover have "0 \<le> \<rho>" using T(1) by (simp add: \<rho>_def)
    ultimately have \<rho>: "0 \<le> \<rho>" "2 * \<rho> + 1 / 549755813888 \<le> 1" using inv by linarith+
    have "of_int (int q) \<le> E + 1 / 2" "E + 1 / 2 < of_int (int q) + 1"
      using E \<rho> by simp_all
    then have f: "\<lfloor>E + 1 / 2\<rfloor> = int q" by (rule floor_unique)
    from a b E \<rho> have "(of_nat n :: rat) < of_nat q + 1" "(of_nat q :: rat) < of_nat n + 1"
      by linarith+
    then have "(of_nat n :: rat) < of_nat (q + 1)" "(of_nat q :: rat) < of_nat (n + 1)"
      by simp_all
    then have "n < q + 1" "q < n + 1" by (simp_all only: of_nat_less_iff)
    then have "n = q" by simp
    then show ?thesis by (simp add: s f n_def)
  next
    case 2
    then have "(of_nat (t + 1) :: rat) \<le> of_nat (2 * r)" by (rule of_nat_mono)
    then have "T + 1 \<le> 2 * of_nat r" by (simp add: T_def)
    then have "(T + 1) / T \<le> (2 * of_nat r) / T"
      using T(1) by (intro divide_right_mono) simp_all
    then have "1 + 1 / T \<le> 2 * \<rho>" using T(1) by (simp add: \<rho>_def add_divide_distrib)
    moreover have "\<rho> < 1" using T(1) rt by (simp add: \<rho>_def T_def)
    ultimately have \<rho>: "\<rho> < 1" "1 + 1 / 549755813888 \<le> 2 * \<rho>" using inv by linarith+
    have "of_int (int (q + 1)) \<le> E + 1 / 2" "E + 1 / 2 < of_int (int (q + 1)) + 1"
      using E \<rho> by simp_all
    then have f: "\<lfloor>E + 1 / 2\<rfloor> = int (q + 1)" by (rule floor_unique)
    from a b E \<rho> have "(of_nat n :: rat) < of_nat q + 2" "(of_nat q :: rat) < of_nat n"
      by linarith+
    then have "(of_nat n :: rat) < of_nat (q + 2)" "(of_nat q :: rat) < of_nat n"
      by simp_all
    then have "n < q + 2" "q < n" by (simp_all only: of_nat_less_iff)
    then have "n = q + 1" by simp
    then show ?thesis by (simp add: s f n_def)
  qed
qed

lemma blen_80: "blen 80 = 7"
  by (simp add: blen.simps)

lemma blen_23: "blen 23 = 5"
  by (simp add: blen.simps)

lemma div_23_80: "js_divide 23 80 = (5179139571476070, 54)"
  by (simp add: js_divide_def fl_ratio_def blen_80 blen_23 rdiv_def Let_def)

lemma times_23_80: "js_times100 (5179139571476070, 54) = (8092405580431359, 48)"
  by (simp add: js_times100_def fl_ratio_def blen.simps rdiv_def Let_def)

text \<open>
  Claim C6, as the code has it. For every iteration record whose issue counts are whole
  numbers with a total below \<open>2 ^ 53\<close> (the sums are then exact): the percentage of the
  progress column is 0 when both sums are zero, with no division; otherwise it is the
  double-precision product \<open>(doneTotal / totalCount) * 100\<close> as \<open>toFixed(1)\<close> prints it,
  which lies within \<open>0.05 + 2 ^ - 44\<close> of the exact percentage. When the total is at most
  \<open>2 ^ 39\<close> and the exact percentage is not halfway between two tenths, it is the exact
  percentage rounded to one decimal place. Halfway, the rounding errors of the quotient
  and of the product decide between the two tenths.
\<close>

theorem progress_percent:
  "(totalCount s = 0 \<longrightarrow> percentTenths s = 0)
   \<and> (0 < totalCount s \<and> totalCount s < 2 ^ 53 \<longrightarrow>
        \<bar>of_nat (percentTenths s) / 10 - 100 * of_nat (doneTotal s) / of_nat (totalCount s)\<bar>
          \<le> (1 / 20 + 1 / 2 ^ 44 :: rat))
   \<and> (0 < totalCount s \<and> totalCount s \<le> 2 ^ 39
        \<and> 2 * ((1000 * doneTotal s) mod totalCount s) \<noteq> totalCount s \<longrightarrow>
        int (percentTenths s) = spec_percentTenths (doneTotal s) (totalCount s))"
proof -
  have le: "doneTotal s \<le> totalCount s" by (simp add: totalCount_def)
  have "totalCount s = 0 \<longrightarrow> percentTenths s = 0"
    by (simp add: percentTenths_def percent_zero)
  moreover have "0 < totalCount s \<longrightarrow>
        \<bar>of_nat (percentTenths s) / 10 - 100 * of_nat (doneTotal s) / of_nat (totalCount s)\<bar>
          \<le> (1 / 20 + 1 / 2 ^ 44 :: rat)"
    using percent_close [OF _ le] by (simp add: percentTenths_def)
  moreover have "0 < totalCount s \<and> totalCount s \<le> 2 ^ 39
        \<and> 2 * ((1000 * doneTotal s) mod totalCount s) \<noteq> totalCount s \<longrightarrow>
        int (percentTenths s) = spec_percentTenths (doneTotal s) (totalCount s)"
    using percent_rounded [OF _ le] by (simp add: percentTenths_def)
  ultimately show ?thesis by blast
qed

theorem progress_percent_witness:
  "totalCount ex_summary = 3 \<and> doneTotal ex_summary = 1
   \<and> 2 * ((1000 * doneTotal ex_summary) mod totalCount ex_summary) = 2
   \<and> int (percentTenths ex_summary) = 333
   \<and> \<bar>of_nat (percentTenths ex_summary) / 10 - 100 / 3\<bar> \<le> (1 / 20 + 1 / 2 ^ 44 :: rat)
   \<and> totalCount [] = 0 \<and> percentTenths [] = 0"
  using progress_percent [of ex_summary] progress_percent [of "[]"]
  by (simp add: totalCount_def doneTotal_def sumBy_def spec_percentTenths_def floor_eq_iff)

text \<open>
  With 23 issues done out of 80 the exact percentage is 28.75, which rounds to 28.8
  (upwards, and to the even tenth as well). The quotient \<open>23 / 80\<close> is the double just
  below 0.2875, the product is 28.749999999999996, and the column shows 28.7.
\<close>

theorem progress_tie_counterexample:
  "doneTotal ex_tie = 23 \<and> totalCount ex_tie = 80
   \<and> percentTenths ex_tie = 287
   \<and> spec_percentTenths (doneTotal ex_tie) (totalCount ex_tie) = 288"
  by (simp add: percentTenths_def totalCount_def doneTotal_def sumBy_def div_23_80 times_23_80
      toFixed1_def spec_percentTenths_def)

end
